theory Spec2Isabelle
  imports Complex_Main "HOL-Library.Sublist"
begin

section \<open>Python strings\<close>

text \<open>
  A Python \<open>str\<close> is modelled as a \<open>string\<close>: a list of 8-bit characters, read as the
  code points 0 to 255 (Latin-1). The predicates below are Python's own, restricted to
  that range: \<open>str.isspace\<close>, the decimal digits of the regular expression \<open>\d\<close>, the word
  characters of \<open>\w\<close> (\<open>str.isalnum\<close> or an underscore), and \<open>str.lower\<close>.
\<close>

definition isspace :: "char \<Rightarrow> bool" where
  "isspace c = (of_char c \<in> {9, 10, 11, 12, 13, 28, 29, 30, 31, 32, 133, 160 :: nat})"

definition isdigit :: "char \<Rightarrow> bool" where
  "isdigit c = (c \<in> set ''0123456789'')"

definition isword :: "char \<Rightarrow> bool" where
  "isword c = (let n = of_char c :: nat in
     (48 \<le> n \<and> n \<le> 57) \<or> (65 \<le> n \<and> n \<le> 90) \<or> (97 \<le> n \<and> n \<le> 122) \<or> n = 95
     \<or> n \<in> {170, 178, 179, 181, 185, 186, 188, 189, 190}
     \<or> (192 \<le> n \<and> n \<le> 214) \<or> (216 \<le> n \<and> n \<le> 246) \<or> (248 \<le> n \<and> n \<le> 255))"

definition lower_char :: "char \<Rightarrow> char" where
  "lower_char c = (let n = of_char c :: nat in
     if (65 \<le> n \<and> n \<le> 90) \<or> (192 \<le> n \<and> n \<le> 222 \<and> n \<noteq> 215)
     then char_of (n + 32) else c)"

definition lower :: "string \<Rightarrow> string" where
  "lower s = map lower_char s"

definition strip :: "string \<Rightarrow> string" where
  "strip s = rev (dropWhile isspace (rev (dropWhile isspace s)))"

text \<open>The substring test \<open>k in s\<close>: is there a position of \<open>s\<close> at which \<open>k\<close> starts?\<close>

fun isin :: "string \<Rightarrow> string \<Rightarrow> bool" where
  "isin k [] = (k = [])"
| "isin k (c # cs) = (prefix k (c # cs) \<or> isin k cs)"

text \<open>
  \<open>str.splitlines()\<close>: the text is cut at every line boundary (\<open>\n\<close>, \<open>\r\<close>, \<open>\r\n\<close> as one
  boundary, \<open>\v\<close>, \<open>\f\<close>, \<open>\x1c\<close>, \<open>\x1d\<close>, \<open>\x1e\<close>, \<open>\x85\<close>); the boundaries are dropped and a
  boundary at the very end opens no further line. \<open>cur\<close> is the line read so far.
\<close>

definition islinebreak :: "char \<Rightarrow> bool" where
  "islinebreak c = (of_char c \<in> {10, 11, 12, 13, 28, 29, 30, 133 :: nat})"

fun splitlines_from :: "string \<Rightarrow> string \<Rightarrow> string list" where
  "splitlines_from cur [] = (if cur = [] then [] else [cur])"
| "splitlines_from cur [c] = (if islinebreak c then [cur] else [cur @ [c]])"
| "splitlines_from cur (c # d # cs) =
     (if of_char c = (13::nat) \<and> of_char d = (10::nat) then cur # splitlines_from [] cs
      else if islinebreak c then cur # splitlines_from [] (d # cs)
      else splitlines_from (cur @ [c]) (d # cs))"

definition splitlines :: "string \<Rightarrow> string list" where
  "splitlines s = splitlines_from [] s"

section \<open>CriticAgent\<close>

text \<open>
  \<open>re.search(r"\b(19|20)\d{2}\b|\d", answer_text)\<close>. The search succeeds when one of the
  two alternatives matches at some position. \<open>year_at prev s\<close> is the first alternative
  at the start of \<open>s\<close>, where \<open>prev\<close> is the character before that position (\<open>None\<close> at
  the start of the text): \<open>\b\<close> holds between a word character and a non-word
  character or an end of the text.
\<close>

definition word_opt :: "char option \<Rightarrow> bool" where
  "word_opt p = (case p of None \<Rightarrow> False | Some c \<Rightarrow> isword c)"

definition boundary :: "char option \<Rightarrow> char option \<Rightarrow> bool" where
  "boundary p n = (word_opt p \<noteq> word_opt n)"

fun year_at :: "char option \<Rightarrow> string \<Rightarrow> bool" where
  "year_at prev (a # b # c # d # rest) =
     (boundary prev (Some a)
      \<and> ((a = CHR ''1'' \<and> b = CHR ''9'') \<or> (a = CHR ''2'' \<and> b = CHR ''0''))
      \<and> isdigit c \<and> isdigit d
      \<and> boundary (Some d) (case rest of [] \<Rightarrow> None | e # _ \<Rightarrow> Some e))"
| "year_at prev _ = False"

fun re_search_from :: "char option \<Rightarrow> string \<Rightarrow> bool" where
  "re_search_from prev [] = False"
| "re_search_from prev (c # cs) =
     (year_at prev (c # cs) \<or> isdigit c \<or> re_search_from (Some c) cs)"

definition re_search_year_or_digit :: "string \<Rightarrow> bool" where
  "re_search_year_or_digit s = re_search_from None s"

definition bad :: "string list" where
  "bad = [''[Insert'', ''Cite Source]'', ''Not available'', ''(Overview)'']"

definition needs_retry :: "string \<Rightarrow> bool" where
  "needs_retry answer_text =
     (if answer_text = [] \<or> isin ''(No answer)'' answer_text then True
      else if list_ex (\<lambda>b. isin b answer_text) bad then True
      else \<not> re_search_year_or_digit answer_text)"

section \<open>Values, exceptions and the record of calls\<close>

text \<open>
  A value of a search hit is \<open>None\<close> or a \<open>str\<close>; a \<open>dict\<close> is a map from keys to values.
  Every function that can raise returns a sum (\<open>Inl\<close> the exception), paired with the
  record of the calls made so far. The collaborators (HTTP, the text generator, the cache
  file, the synthesizer) are functions of the environment that see that record, so that
  their answers may change from one call to the next.
\<close>

datatype pyval = PyNone | PyStr string

fun truthy :: "pyval \<Rightarrow> bool" where
  "truthy PyNone = False"
| "truthy (PyStr s) = (s \<noteq> [])"

type_synonym dict = "string \<Rightarrow> pyval option"

definition get_or :: "dict \<Rightarrow> string \<Rightarrow> pyval \<Rightarrow> pyval" where
  "get_or d k dflt = (case d k of None \<Rightarrow> dflt | Some v \<Rightarrow> v)"

datatype exn = HTTPError nat | ValueError | IndexError | Raised string

datatype pyarg = AStr string | AInt int

record snippet_item =
  name :: pyval
  url :: pyval
  snippet :: pyval

record http_response =
  status_code :: nat
  json :: "exn + (string \<Rightarrow> dict list option)"

record cache_doc =
  doc_summary :: "string option"
  doc_results :: "dict list option"

record response =
  answer :: string
  sources :: "string list"
  hits :: "(real \<times> dict) list"
  resp_followups :: "string list option"

text \<open>
  The calls a run makes, in order. A call of the synthesizer is recorded with its
  arguments and with what it returned or raised.
\<close>

datatype event =
    ReadJson string string
  | CallGemini string string
  | GatherSnippets "string list" int
  | WebSearch string int
  | RequestsGet string "(string \<times> pyarg) list"
  | SynthesizerAnswer string string "dict list" "snippet_item list" "exn + response"

record env =
  SEARCH_PROVIDER :: string
  SERPAPI_API_KEY :: "string option"
  GOOGLE_CSE_API_KEY :: "string option"
  GOOGLE_CSE_CX :: "string option"
  SYSTEM_BASE :: string
  requests_get :: "event list \<Rightarrow> string \<Rightarrow> (string \<times> pyarg) list \<Rightarrow> exn + http_response"
  call_gemini :: "event list \<Rightarrow> string \<Rightarrow> string \<Rightarrow> exn + string"
  read_json :: "event list \<Rightarrow> string \<Rightarrow> string \<Rightarrow> exn + cache_doc"
  synthesizer_answer ::
    "event list \<Rightarrow> string \<Rightarrow> string \<Rightarrow> dict list \<Rightarrow> snippet_item list \<Rightarrow> exn + response"

section \<open>SearchProvider (services/search.py)\<close>

fun normalize_url :: "pyval \<Rightarrow> pyval" where
  "normalize_url PyNone = PyNone"
| "normalize_url (PyStr s) = (if s \<noteq> [] then PyStr (strip s) else PyStr s)"

definition serpapi_result :: "dict \<Rightarrow> dict" where
  "serpapi_result item =
     [''name'' \<mapsto> get_or item ''title'' PyNone,
      ''url'' \<mapsto> normalize_url (get_or item ''link'' PyNone),
      ''snippet'' \<mapsto> get_or item ''snippet'' PyNone,
      ''displayUrl'' \<mapsto> (if truthy (get_or item ''displayed_link'' PyNone)
                         then get_or item ''displayed_link'' PyNone
                         else get_or item ''link'' PyNone)]"

definition cse_result :: "dict \<Rightarrow> dict" where
  "cse_result item =
     [''name'' \<mapsto> get_or item ''title'' PyNone,
      ''url'' \<mapsto> normalize_url (get_or item ''link'' PyNone),
      ''snippet'' \<mapsto> get_or item ''snippet'' PyNone,
      ''displayUrl'' \<mapsto> get_or item ''link'' PyNone]"

text \<open>
  \<open>requests.get\<close>, \<open>raise_for_status\<close> (an \<open>HTTPError\<close> for a status from 400 to 599)
  and \<open>r.json()\<close>; none of the three is inside a \<open>try\<close>.
\<close>

definition fetch_items ::
  "env \<Rightarrow> event list \<Rightarrow> string \<Rightarrow> (string \<times> pyarg) list \<Rightarrow> string \<Rightarrow> (dict \<Rightarrow> dict)
     \<Rightarrow> (exn + dict list) \<times> event list" where
  "fetch_items e tr endpoint params key mk =
     (let tr' = tr @ [RequestsGet endpoint params] in
      case requests_get e tr endpoint params of
        Inl x \<Rightarrow> (Inl x, tr')
      | Inr r \<Rightarrow>
          if 400 \<le> status_code r \<and> status_code r < 600 then (Inl (HTTPError (status_code r)), tr')
          else (case json r of
                  Inl x \<Rightarrow> (Inl x, tr')
                | Inr data \<Rightarrow>
                    (Inr (map mk (case data key of None \<Rightarrow> [] | Some items \<Rightarrow> items)), tr')))"

definition serpapi_google_search ::
  "env \<Rightarrow> event list \<Rightarrow> string \<Rightarrow> int \<Rightarrow> (exn + dict list) \<times> event list" where
  "serpapi_google_search e tr query count =
     (case SERPAPI_API_KEY e of
        None \<Rightarrow> (Inr [], tr)
      | Some k \<Rightarrow>
          if k = [] then (Inr [], tr)
          else fetch_items e tr ''https://serpapi.com/search.json''
                 [(''engine'', AStr ''google''), (''q'', AStr query),
                  (''num'', AInt (min 10 count)), (''api_key'', AStr k)]
                 ''organic_results'' serpapi_result)"

definition google_cse_search ::
  "env \<Rightarrow> event list \<Rightarrow> string \<Rightarrow> int \<Rightarrow> (exn + dict list) \<times> event list" where
  "google_cse_search e tr query count =
     (case (GOOGLE_CSE_API_KEY e, GOOGLE_CSE_CX e) of
        (Some k, Some cx) \<Rightarrow>
          if k = [] \<or> cx = [] then (Inr [], tr)
          else fetch_items e tr ''https://www.googleapis.com/customsearch/v1''
                 [(''q'', AStr query), (''key'', AStr k), (''cx'', AStr cx),
                  (''num'', AInt (min 10 count))]
                 ''items'' cse_result
      | _ \<Rightarrow> (Inr [], tr))"

definition web_search ::
  "env \<Rightarrow> event list \<Rightarrow> string \<Rightarrow> int \<Rightarrow> (exn + dict list) \<times> event list" where
  "web_search e tr query count =
     (let provider = lower (SEARCH_PROVIDER e); tr' = tr @ [WebSearch query count] in
      if provider = ''serpapi'' then serpapi_google_search e tr' query count
      else if provider \<in> set [''google_cse'', ''google''] then google_cse_search e tr' query count
      else serpapi_google_search e tr' query count)"

section \<open>RetrieverAgent\<close>

definition hit_item :: "dict \<Rightarrow> snippet_item" where
  "hit_item h = \<lparr>name = get_or h ''name'' (PyStr []),
                 url = get_or h ''url'' (PyStr []),
                 snippet = get_or h ''snippet'' (PyStr [])\<rparr>"

text \<open>The inner loop over the hits of one query: a hit with a falsy url is dropped.\<close>

fun append_hits :: "snippet_item list \<Rightarrow> dict list \<Rightarrow> snippet_item list" where
  "append_hits results [] = results"
| "append_hits results (h # hs) =
     (if truthy (url (hit_item h)) then append_hits (results @ [hit_item h]) hs
      else append_hits results hs)"

text \<open>The outer loop over the queries: an exception of \<open>web_search\<close> ends it.\<close>

fun search_each ::
  "env \<Rightarrow> event list \<Rightarrow> string list \<Rightarrow> int \<Rightarrow> snippet_item list
     \<Rightarrow> (exn + snippet_item list) \<times> event list" where
  "search_each e tr [] count results = (Inr results, tr)"
| "search_each e tr (q # queries) count results =
     (case web_search e tr q count of
        (Inl x, tr') \<Rightarrow> (Inl x, tr')
      | (Inr hs, tr') \<Rightarrow> search_each e tr' queries count (append_hits results hs))"

fun dedup_by_url :: "snippet_item list \<Rightarrow> pyval set \<Rightarrow> snippet_item list \<Rightarrow> snippet_item list" where
  "dedup_by_url [] seen uniq = uniq"
| "dedup_by_url (r # results) seen uniq =
     (if url r \<notin> seen then dedup_by_url results (insert (url r) seen) (uniq @ [r])
      else dedup_by_url results seen uniq)"

definition gather_snippets ::
  "env \<Rightarrow> event list \<Rightarrow> string list \<Rightarrow> int \<Rightarrow> (exn + snippet_item list) \<times> event list" where
  "gather_snippets e tr queries count =
     (case search_each e (tr @ [GatherSnippets queries count]) queries count [] of
        (Inl x, tr') \<Rightarrow> (Inl x, tr')
      | (Inr results, tr') \<Rightarrow> (Inr (take 20 (dedup_by_url results {} [])), tr'))"

section \<open>PlannerAgent\<close>

record plan_dict =
  need_fresh_search :: bool
  search_queries :: "string list"
  followups :: "string list"

text \<open>
  The prompt of the planner. The source's literal has an en dash in \<open>2-4\<close> and an em dash
  after \<open>commentary\<close>, both outside the 8-bit range; they are written \<open>-\<close> here. No
  function below looks into the prompt.
\<close>

definition planner_prompt :: "string \<Rightarrow> string \<Rightarrow> string" where
  "planner_prompt company_name user_prompt =
     ''Derive 2-4 focused web search queries from the user's request. ''
     @ ''Queries MUST be specific to the company and the metrics/entities mentioned. ''
     @ ''No bullets, no commentary-one query per line.'' @ [CHR 0x0A]
     @ ''Company: '' @ company_name @ [CHR 0x0A]
     @ ''User request: '' @ user_prompt @ [CHR 0x0A]"

definition template_queries :: "string \<Rightarrow> string \<Rightarrow> string list" where
  "template_queries company_name user_prompt =
     (let base = strip company_name; up = strip user_prompt in
      [base @ '' '' @ up @ '' latest figures'',
       base @ '' segment revenue by product last year'',
       base @ '' top products revenue '' @ up,
       base @ '' annual report product revenue breakdown''])"

definition plan ::
  "env \<Rightarrow> event list \<Rightarrow> string \<Rightarrow> string \<Rightarrow> bool \<Rightarrow> plan_dict \<times> event list" where
  "plan e tr company_name user_prompt kb_ready =
     (let fresh = (if kb_ready \<and> list_ex (\<lambda>k. isin k (lower user_prompt))
                                   [''use kb'', ''from cached'', ''from pdf'', ''from overview'']
                   then False else True);
          prompt = planner_prompt company_name user_prompt;
          lines = (case call_gemini e tr (SYSTEM_BASE e) prompt of
                     Inl x \<Rightarrow> []
                   | Inr qtext \<Rightarrow> filter (\<lambda>l. l \<noteq> []) (map strip (splitlines qtext)));
          lines' = (if lines = [] then template_queries company_name user_prompt else lines)
      in (\<lparr>need_fresh_search = fresh,
           search_queries = take 4 lines',
           followups = [''Should I compare the last 3 years or focus on the latest year?'',
                        ''Do you want product-level revenue or segment-level revenue?'',
                        ''Should I include competitor benchmarks for context?'']\<rparr>,
          tr @ [CallGemini (SYSTEM_BASE e) prompt]))"

section \<open>ResearchAgent.answer_multi\<close>

text \<open>\<open>str\<close> of an \<open>int\<close>, for the f-string that writes \<open>self.years\<close>.\<close>

fun str_nat :: "nat \<Rightarrow> string" where
  "str_nat n = (if n < 10 then [''0123456789'' ! n]
                else str_nat (n div 10) @ [''0123456789'' ! (n mod 10)])"

declare str_nat.simps [simp del]

definition str_int :: "int \<Rightarrow> string" where
  "str_int i = (if i < 0 then CHR ''-'' # str_nat (nat (- i)) else str_nat (nat i))"

definition refine_q :: "string \<Rightarrow> int \<Rightarrow> string \<Rightarrow> string list" where
  "refine_q company_name years user_prompt =
     [company_name @ '' '' @ user_prompt @ '' latest report'',
      company_name @ '' product revenue table FY '' @ str_int years,
      company_name @ '' segment revenue by product'']"

definition synthesize ::
  "env \<Rightarrow> event list \<Rightarrow> string \<Rightarrow> string \<Rightarrow> dict list \<Rightarrow> snippet_item list
     \<Rightarrow> (exn + response) \<times> event list" where
  "synthesize e tr company_name question overview_results fresh_snippets =
     (let out = synthesizer_answer e tr company_name question overview_results fresh_snippets
      in (out, tr @ [SynthesizerAnswer company_name question overview_results fresh_snippets out]))"

definition answer_multi ::
  "env \<Rightarrow> string \<Rightarrow> int \<Rightarrow> event list \<Rightarrow> string \<Rightarrow> bool \<Rightarrow> (exn + response) \<times> event list" where
  "answer_multi e company_name years tr user_prompt kb_ready =
     (case read_json e tr company_name ''basic_overview'' of
        Inl x \<Rightarrow> (Inl x, tr @ [ReadJson company_name ''basic_overview''])
      | Inr ov \<Rightarrow>
         (let overview_results = (case doc_results ov of None \<Rightarrow> [] | Some rs \<Rightarrow> rs);
              (pl, tr1) = plan e (tr @ [ReadJson company_name ''basic_overview''])
                            company_name user_prompt kb_ready
          in case (if need_fresh_search pl then gather_snippets e tr1 (search_queries pl) 6
                   else (Inr [], tr1)) of
               (Inl x, tr2) \<Rightarrow> (Inl x, tr2)
             | (Inr fresh_snippets, tr2) \<Rightarrow>
                (case synthesize e tr2 company_name user_prompt overview_results fresh_snippets of
                   (Inl x, tr3) \<Rightarrow> (Inl x, tr3)
                 | (Inr resp, tr3) \<Rightarrow>
                    if needs_retry (answer resp) then
                      (case gather_snippets e tr3 (refine_q company_name years user_prompt) 6 of
                         (Inl x, tr4) \<Rightarrow> (Inl x, tr4)
                       | (Inr fresh_snippets2, tr4) \<Rightarrow>
                          (case synthesize e tr4 company_name user_prompt overview_results
                                  fresh_snippets2 of
                             (Inl x, tr5) \<Rightarrow> (Inl x, tr5)
                           | (Inr resp2, tr5) \<Rightarrow>
                              (Inr (resp2\<lparr>resp_followups := Some (followups pl)\<rparr>), tr5)))
                    else (Inr (resp\<lparr>resp_followups := Some (followups pl)\<rparr>), tr3))))"

section \<open>VectorIndex (services/index.py)\<close>

text \<open>
  Numbers are real numbers here: the rounding, the infinities and the NaN of the
  floating-point arithmetic of numpy are not modelled, so the scores of \<open>search\<close> below
  are not the numbers the code computes, and nothing is stated below that depends on
  their values. A matrix is the list of its rows. Two functions of numpy are parameters:
  the stream of draws of \<open>default_rng(42)\<close>, from which \<open>rng.random((n, 512))\<close> fills its
  rows in order, and \<open>argsort\<close>. The OpenAI client is \<open>None\<close> without an API key;
  otherwise it is what \<open>client.embeddings.create\<close> does during the call at hand: it
  raises, or it returns the embeddings of \<open>resp.data\<close>.
\<close>

record numpy =
  random42 :: "nat \<Rightarrow> real"
  argsort :: "real list \<Rightarrow> nat list"

type_synonym openai_client = "(string list \<Rightarrow> exn + real list list) option"

record vector_index =
  vectors :: "real list list option"
  metadatas :: "dict list"
  texts :: "string list"
  index_dim :: "nat option"

definition init :: vector_index where
  "init = \<lparr>vectors = None, metadatas = [], texts = [], index_dim = None\<rparr>"

definition random_matrix :: "numpy \<Rightarrow> nat \<Rightarrow> real list list" where
  "random_matrix np n = map (\<lambda>i. map (\<lambda>j. random42 np (i * 512 + j)) [0..<512]) [0..<n]"

text \<open>
  \<open>embed_texts\<close> is \<open>_embed\<close>. Inside the \<open>try\<close>: the call of the API, \<open>embs[0]\<close> (an \<open>IndexError\<close> when no
  embedding came back) and \<open>np.array\<close> (a \<open>ValueError\<close> when the rows differ in length).
  Every exception leads to the random rows of dimension 512.
\<close>

definition embed_texts ::
  "numpy \<Rightarrow> openai_client \<Rightarrow> vector_index \<Rightarrow> string list \<Rightarrow> real list list \<times> vector_index" where
  "embed_texts np client ix ts =
     (case client of
        None \<Rightarrow> (random_matrix np (length ts), ix\<lparr>index_dim := Some 512\<rparr>)
      | Some create \<Rightarrow>
          (case create ts of
             Inl x \<Rightarrow> (random_matrix np (length ts), ix\<lparr>index_dim := Some 512\<rparr>)
           | Inr embs \<Rightarrow>
               (case embs of
                  [] \<Rightarrow> (random_matrix np (length ts), ix\<lparr>index_dim := Some 512\<rparr>)
                | e0 # _ \<Rightarrow>
                    if \<forall>r \<in> set embs. length r = length e0
                    then (embs, ix\<lparr>index_dim := Some (length e0)\<rparr>)
                    else (random_matrix np (length ts), ix\<lparr>index_dim := Some 512\<rparr>))))"

text \<open>\<open>np.vstack\<close> raises a \<open>ValueError\<close> when the two matrices differ in their row length.\<close>

definition vstack :: "real list list \<Rightarrow> real list list \<Rightarrow> exn + real list list" where
  "vstack a b = (if \<forall>r \<in> set a. \<forall>s \<in> set b. length r = length s then Inr (a @ b)
                 else Inl ValueError)"

definition add ::
  "numpy \<Rightarrow> openai_client \<Rightarrow> vector_index \<Rightarrow> string list \<Rightarrow> dict list
     \<Rightarrow> (exn + unit) \<times> vector_index" where
  "add np client ix ts ms =
     (if ts = [] then (Inr (), ix)
      else
        (let (embeds, ix1) = embed_texts np client ix ts;
             ix2 = ix1\<lparr>texts := texts ix1 @ ts\<rparr>;
             ix3 = ix2\<lparr>metadatas := metadatas ix2 @ ms\<rparr>
         in case vectors ix3 of
              None \<Rightarrow> (Inr (), ix3\<lparr>vectors := Some embeds\<rparr>)
            | Some v \<Rightarrow>
                (case vstack v embeds of
                   Inl x \<Rightarrow> (Inl x, ix3)
                 | Inr v' \<Rightarrow> (Inr (), ix3\<lparr>vectors := Some v'\<rparr>))))"

definition dot :: "real list \<Rightarrow> real list \<Rightarrow> real" where
  "dot u v = sum_list (map (\<lambda>(a, b). a * b) (zip u v))"

definition norm2 :: "real list \<Rightarrow> real" where
  "norm2 v = sqrt (sum_list (map (\<lambda>a. a * a) v))"

text \<open>\<open>self.vectors @ qv\<close> raises a \<open>ValueError\<close> unless every row has the length of \<open>qv\<close>.\<close>

definition matvec :: "real list list \<Rightarrow> real list \<Rightarrow> exn + real list" where
  "matvec m qv = (if \<forall>r \<in> set m. length r = length qv then Inr (map (\<lambda>r. dot r qv) m)
                  else Inl ValueError)"

text \<open>The slice \<open>xs[:k]\<close>: a negative \<open>k\<close> counts from the end.\<close>

definition slice_to :: "int \<Rightarrow> 'a list \<Rightarrow> 'a list" where
  "slice_to k xs = (if 0 \<le> k then take (nat k) xs else take (length xs - nat (- k)) xs)"

definition search ::
  "numpy \<Rightarrow> openai_client \<Rightarrow> vector_index \<Rightarrow> string \<Rightarrow> int
     \<Rightarrow> (exn + (real \<times> dict) list) \<times> vector_index" where
  "search np client ix query k =
     (case vectors ix of
        None \<Rightarrow> (Inr [], ix)
      | Some v \<Rightarrow>
          if length (texts ix) = 0 then (Inr [], ix)
          else
            (let (qm, ix1) = embed_texts np client ix [query] in
             case qm of
               [] \<Rightarrow> (Inl IndexError, ix1)
             | qv # _ \<Rightarrow>
                 (let denom = map (\<lambda>r. norm2 r * norm2 qv) v in
                  case matvec v qv of
                    Inl x \<Rightarrow> (Inl x, ix1)
                  | Inr prods \<Rightarrow>
                      (let sims = map (\<lambda>(a, d). a / (d + 1 / 10 ^ 8)) (zip prods denom);
                           idxs = slice_to k (argsort np (map uminus sims))
                       in if \<forall>i \<in> set idxs. i < length sims \<and> i < length (metadatas ix1)
                          then (Inr (map (\<lambda>i. (sims ! i, metadatas ix1 ! i)) idxs), ix1)
                          else (Inl IndexError, ix1)))))"

text \<open>The embedding of the query that \<open>search\<close> computes.\<close>

definition query_embedding :: "numpy \<Rightarrow> openai_client \<Rightarrow> vector_index \<Rightarrow> string \<Rightarrow> real list" where
  "query_embedding np client ix query =
     (case fst (embed_texts np client ix [query]) of [] \<Rightarrow> [] | qv # _ \<Rightarrow> qv)"

text \<open>The forced-failure mode of the embedding collaborator: no client, or a call that raises.\<close>

definition forced_failure :: "openai_client \<Rightarrow> string list \<Rightarrow> bool" where
  "forced_failure client ts =
     (case client of None \<Rightarrow> True | Some create \<Rightarrow> (case create ts of Inl x \<Rightarrow> True | Inr embs \<Rightarrow> False))"

text \<open>
  A numpy for evaluation. Both fields are stand-ins, not numpy's own functions: some
  sorting function in place of \<open>argsort\<close> and some sequence in place of the stream of
  draws.
\<close>

definition insertion_argsort :: "real list \<Rightarrow> nat list" where
  "insertion_argsort xs = map snd (sort_key fst (zip xs [0..<length xs]))"

definition np0 :: numpy where
  "np0 = \<lparr>random42 = (\<lambda>i. 1 / (real i + 2)), argsort = insertion_argsort\<rparr>"

definition api_1536 :: openai_client where
  "api_1536 = Some (\<lambda>ts. Inr (map (\<lambda>t. replicate 1536 (1 / 40)) ts))"

definition api_down :: openai_client where
  "api_down = Some (\<lambda>ts. Inl (Raised ''RateLimitError''))"

text \<open>The parallel arrays: as many texts as metadata records as rows of the matrix.\<close>

definition parallel_arrays :: "vector_index \<Rightarrow> bool" where
  "parallel_arrays ix =
     (length (metadatas ix) = length (texts ix)
      \<and> (case vectors ix of None \<Rightarrow> texts ix = [] | Some v \<Rightarrow> length v = length (texts ix)))"

definition one_item :: vector_index where
  "one_item = \<lparr>vectors = Some [replicate 1536 (1 / 40)],
               metadatas = [[''source'' \<mapsto> PyStr ''http://a'']],
               texts = [''a''], index_dim = Some 1536\<rparr>"

section \<open>Reading the record of calls\<close>

text \<open>
  \<open>synth_log\<close> lists the calls of the synthesizer in a record of calls (the fresh
  snippets passed and the outcome), \<open>gather_log\<close> the query lists passed to
  \<open>gather_snippets\<close>, \<open>search_log\<close> the queries passed to \<open>web_search\<close>.
\<close>

fun synth_log :: "event list \<Rightarrow> (snippet_item list \<times> (exn + response)) list" where
  "synth_log [] = []"
| "synth_log (SynthesizerAnswer c q ov fs out # tr) = (fs, out) # synth_log tr"
| "synth_log (_ # tr) = synth_log tr"

fun gather_log :: "event list \<Rightarrow> string list list" where
  "gather_log [] = []"
| "gather_log (GatherSnippets qs n # tr) = qs # gather_log tr"
| "gather_log (_ # tr) = gather_log tr"

fun search_log :: "event list \<Rightarrow> string list" where
  "search_log [] = []"
| "search_log (WebSearch q n # tr) = q # search_log tr"
| "search_log (_ # tr) = search_log tr"

section \<open>Concrete environments and the search results of a run\<close>

text \<open>
  \<open>search_results\<close> lists what \<open>web_search\<close> returns for each query of a run of the
  outer loop, in the order of the queries, up to the first exception.
\<close>

fun search_results :: "env \<Rightarrow> event list \<Rightarrow> string list \<Rightarrow> int \<Rightarrow> dict list list" where
  "search_results e tr [] count = []"
| "search_results e tr (q # queries) count =
     (case web_search e tr q count of
        (Inl x, tr') \<Rightarrow> []
      | (Inr hs, tr') \<Rightarrow> hs # search_results e tr' queries count)"

text \<open>
  Environments for evaluation. \<open>stub_env\<close> answers every request with status 200: two
  hits for the query \<open>q1\<close> and three for any other query, one of them with the url of
  a \<open>q1\<close> hit and one with a blank link; its text generator returns two blank lines,
  and its synthesizer answers \<open>(No answer)\<close> the first time and a text with figures
  afterwards. \<open>outage_env\<close> answers the query \<open>a\<close> with status 503 and any other query
  with one hit. In \<open>retry_outage_env\<close> the provider fails on the first broadened query of
  a retry for the company \<open>Nokia\<close> and the prompt \<open>revenue\<close>. In \<open>quota_env\<close> the text
  generator raises.
\<close>

definition provider_item :: "string \<Rightarrow> string \<Rightarrow> string \<Rightarrow> dict" where
  "provider_item t l s = [''title'' \<mapsto> PyStr t, ''link'' \<mapsto> PyStr l, ''snippet'' \<mapsto> PyStr s]"

definition blank_text :: string where
  "blank_text = '' '' @ [CHR 0x0A] @ [CHR 0x09]"

definition stub_env :: env where
  "stub_env = \<lparr>SEARCH_PROVIDER = ''serpapi'', SERPAPI_API_KEY = Some ''key'',
     GOOGLE_CSE_API_KEY = None, GOOGLE_CSE_CX = None, SYSTEM_BASE = ''system'',
     requests_get = (\<lambda>tr endpoint params.
        if (''q'', AStr ''q1'') \<in> set params
        then Inr \<lparr>status_code = 200, json = Inr [''organic_results'' \<mapsto>
               [provider_item ''A'' ''http://a'' ''sa'', provider_item ''B'' '' http://b '' ''sb'']]\<rparr>
        else Inr \<lparr>status_code = 200, json = Inr [''organic_results'' \<mapsto>
               [provider_item ''B2'' ''http://b'' ''sb2'', provider_item ''N'' '' '' ''sn'',
                provider_item ''C'' ''http://c'' ''sc'']]\<rparr>),
     call_gemini = (\<lambda>tr sys p. Inr blank_text),
     read_json = (\<lambda>tr c n. Inr \<lparr>doc_summary = None, doc_results = None\<rparr>),
     synthesizer_answer = (\<lambda>tr c q ov fs.
        if synth_log tr = []
        then Inr \<lparr>answer = ''(No answer)'', sources = [], hits = [], resp_followups = None\<rparr>
        else Inr \<lparr>answer = ''Revenue grew in 2023 to 20B'', sources = [], hits = [],
                  resp_followups = None\<rparr>)\<rparr>"

definition outage_env :: env where
  "outage_env = stub_env\<lparr>requests_get := (\<lambda>tr endpoint params.
        if (''q'', AStr ''a'') \<in> set params
        then Inr \<lparr>status_code = 503, json = Inl (Raised ''JSONDecodeError'')\<rparr>
        else Inr \<lparr>status_code = 200, json = Inr [''organic_results'' \<mapsto>
               [provider_item ''B'' ''http://b'' ''sb'']]\<rparr>)\<rparr>"

definition retry_outage_env :: env where
  "retry_outage_env = stub_env\<lparr>requests_get := (\<lambda>tr endpoint params.
        if (''q'', AStr ''Nokia revenue latest report'') \<in> set params
        then Inr \<lparr>status_code = 503, json = Inl (Raised ''JSONDecodeError'')\<rparr>
        else Inr \<lparr>status_code = 200, json = Inr [''organic_results'' \<mapsto>
               [provider_item ''A'' ''http://a'' ''sa'']]\<rparr>)\<rparr>"

definition quota_env :: env where
  "quota_env = stub_env\<lparr>call_gemini := (\<lambda>tr sys p. Inl (Raised ''ResourceExhausted''))\<rparr>"

text \<open>
  The events \<open>new\<close> of a run of \<open>answer_multi\<close> with result \<open>r\<close>, for the plan \<open>pl\<close>:
  either no synthesis took place and the run raised, or the events are those before the
  first synthesis, the first synthesis, and those after it.
\<close>

definition run_shape ::
  "string \<Rightarrow> int \<Rightarrow> string \<Rightarrow> plan_dict \<Rightarrow> (exn + response) \<Rightarrow> event list \<Rightarrow> bool" where
  "run_shape c y p pl r new =
     ((synth_log new = [] \<and> (\<exists>x. r = Inl x)) \<or>
      (\<exists>pre ov fresh1 out1 post.
          new = pre @ SynthesizerAnswer c p ov fresh1 out1 # post \<and> synth_log pre = [] \<and>
          gather_log pre = (if need_fresh_search pl then [search_queries pl] else []) \<and>
          (\<not> need_fresh_search pl \<longrightarrow> fresh1 = [] \<and> search_log pre = []) \<and>
          (case out1 of
             Inl x \<Rightarrow> post = [] \<and> r = Inl x
           | Inr resp1 \<Rightarrow>
               if needs_retry (answer resp1) then
                 gather_log post = [refine_q c y p] \<and> search_log post \<noteq> [] \<and>
                 prefix (search_log post) (refine_q c y p) \<and>
                 ((synth_log post = [] \<and> (\<exists>x. r = Inl x)) \<or>
                  (\<exists>fresh2 out2. synth_log post = [(fresh2, out2)] \<and>
                      (case out2 of
                         Inl x \<Rightarrow> r = Inl x
                       | Inr resp2 \<Rightarrow> r = Inr (resp2\<lparr>resp_followups := Some (followups pl)\<rparr>))))
               else post = [] \<and> r = Inr (resp1\<lparr>resp_followups := Some (followups pl)\<rparr>))))"

section \<open>Facts about the string functions\<close>

lemma isin_iff: "isin k s \<longleftrightarrow> (\<exists>pre post. s = pre @ k @ post)"
proof (induction s)
  case Nil
  show ?case by auto
next
  case (Cons c cs)
  show ?case
  proof
    assume "isin k (c # cs)"
    then consider "prefix k (c # cs)" | "isin k cs" by auto
    then show "\<exists>pre post. c # cs = pre @ k @ post"
    proof cases
      case 1
      then obtain post where "c # cs = k @ post" by (auto simp: prefix_def)
      then have "c # cs = [] @ k @ post" by simp
      then show ?thesis by blast
    next
      case 2
      with Cons.IH obtain pre post where "cs = pre @ k @ post" by blast
      then have "c # cs = (c # pre) @ k @ post" by simp
      then show ?thesis by blast
    qed
  next
    assume "\<exists>pre post. c # cs = pre @ k @ post"
    then obtain pre post where e: "c # cs = pre @ k @ post" by blast
    show "isin k (c # cs)"
    proof (cases pre)
      case Nil
      with e have "prefix k (c # cs)" by (simp add: prefix_def)
      then show ?thesis by simp
    next
      case (Cons p pre')
      with e have "cs = pre' @ k @ post" by simp
      with Cons.IH have "isin k cs" by blast
      then show ?thesis by simp
    qed
  qed
qed

lemma re_search_from_digit: "re_search_from prev s \<longleftrightarrow> (\<exists>c \<in> set s. isdigit c)"
proof (induction s arbitrary: prev)
  case Nil
  show ?case by simp
next
  case (Cons c cs)
  have y: "year_at prev (c # cs) \<Longrightarrow> \<exists>x \<in> set (c # cs). isdigit x"
    by (cases "(prev, c # cs)" rule: year_at.cases) auto
  show ?case using Cons.IH [of "Some c"] y by auto
qed

lemma needs_retry_iff:
  "needs_retry s \<longleftrightarrow>
     (s = [] \<or> isin ''(No answer)'' s \<or> (\<exists>b \<in> set bad. isin b s) \<or> \<not> (\<exists>c \<in> set s. isdigit c))"
  by (simp add: needs_retry_def re_search_year_or_digit_def re_search_from_digit list_ex_iff)

lemma not_isin_iff: "\<not> isin k s \<longleftrightarrow> \<not> (\<exists>pre post. s = pre @ k @ post)"
  by (simp add: isin_iff)

section \<open>The critic's predicate\<close>

text \<open>
  Claim C7. \<open>needs_retry\<close> is a function of its argument alone, and: it is true of the
  empty text; true of every text that contains \<open>(No answer)\<close>; true of every text that
  contains one of the placeholders \<open>[Insert\<close>, \<open>Cite Source]\<close>, \<open>Not available\<close>,
  \<open>(Overview)\<close>; true of every text without a digit; false of every text that has a
  digit and none of these markers. In particular it is false of
  \<open>Revenue grew in 2023 to 20B\<close> and true of \<open>Growth was strong\<close>.
\<close>

theorem needs_retry_spec:
  "needs_retry []
   \<and> (\<forall>pre post. needs_retry (pre @ ''(No answer)'' @ post))
   \<and> (\<forall>b \<in> set [''[Insert'', ''Cite Source]'', ''Not available'', ''(Overview)''].
        \<forall>pre post. needs_retry (pre @ b @ post))
   \<and> (\<forall>s. (\<forall>c \<in> set s. c \<notin> set ''0123456789'') \<longrightarrow> needs_retry s)
   \<and> (\<forall>s. (\<exists>c \<in> set s. c \<in> set ''0123456789'')
          \<and> \<not> (\<exists>pre post. s = pre @ ''(No answer)'' @ post)
          \<and> (\<forall>b \<in> set [''[Insert'', ''Cite Source]'', ''Not available'', ''(Overview)''].
                \<not> (\<exists>pre post. s = pre @ b @ post))
          \<longrightarrow> \<not> needs_retry s)
   \<and> \<not> needs_retry ''Revenue grew in 2023 to 20B''
   \<and> needs_retry ''Growth was strong''"
proof -
  have 1: "needs_retry []" by (simp add: needs_retry_def)
  have 2: "\<forall>pre post. needs_retry (pre @ ''(No answer)'' @ post)"
    unfolding needs_retry_iff isin_iff by blast
  have 3: "\<forall>b \<in> set [''[Insert'', ''Cite Source]'', ''Not available'', ''(Overview)''].
        \<forall>pre post. needs_retry (pre @ b @ post)"
    unfolding needs_retry_iff isin_iff bad_def by blast
  have 4: "\<forall>s. (\<forall>c \<in> set s. c \<notin> set ''0123456789'') \<longrightarrow> needs_retry s"
    unfolding needs_retry_iff isdigit_def by blast
  have 5: "\<forall>s. (\<exists>c \<in> set s. c \<in> set ''0123456789'')
          \<and> \<not> (\<exists>pre post. s = pre @ ''(No answer)'' @ post)
          \<and> (\<forall>b \<in> set [''[Insert'', ''Cite Source]'', ''Not available'', ''(Overview)''].
                \<not> (\<exists>pre post. s = pre @ b @ post))
          \<longrightarrow> \<not> needs_retry s"
    unfolding needs_retry_iff isin_iff isdigit_def bad_def by auto
  have 6: "\<not> needs_retry ''Revenue grew in 2023 to 20B''" by code_simp
  have 7: "needs_retry ''Growth was strong''" by code_simp
  from 1 2 3 4 5 6 7 show ?thesis by blast
qed

theorem needs_retry_spec_witness:
  "needs_retry (''see '' @ ''[Insert'' @ '' 2023 data]'')
   \<and> needs_retry ''no figures here''
   \<and> \<not> needs_retry ''Revenue 5''"
proof -
  have m: "''[Insert'' \<in> set [''[Insert'', ''Cite Source]'', ''Not available'', ''(Overview)'']"
    by simp
  have "\<forall>b \<in> set [''[Insert'', ''Cite Source]'', ''Not available'', ''(Overview)''].
        \<forall>pre post. needs_retry (pre @ b @ post)"
    using needs_retry_spec by (elim conjE)
  with m have a: "needs_retry (''see '' @ ''[Insert'' @ '' 2023 data]'')"
    by blast
  have "\<forall>c \<in> set ''no figures here''. c \<notin> set ''0123456789''" by simp
  then have b: "needs_retry ''no figures here''"
    using needs_retry_spec by blast
  have h1: "\<exists>c \<in> set ''Revenue 5''. c \<in> set ''0123456789''" by simp
  have h2: "\<not> (\<exists>pre post. ''Revenue 5'' = pre @ ''(No answer)'' @ post)"
    unfolding not_isin_iff [symmetric] by code_simp
  have h3: "\<forall>b \<in> set [''[Insert'', ''Cite Source]'', ''Not available'', ''(Overview)''].
      \<not> (\<exists>pre post. ''Revenue 5'' = pre @ b @ post)"
    unfolding not_isin_iff [symmetric] by code_simp
  have c: "\<not> needs_retry ''Revenue 5''"
    using needs_retry_spec h1 h2 h3 by blast
  from a b c show ?thesis by blast
qed

section \<open>The retriever\<close>

lemma append_hits_eq:
  "append_hits results hs = results @ filter (\<lambda>r. truthy (url r)) (map hit_item hs)"
  by (induction hs arbitrary: results) auto

lemma dedup_by_url_acc: "dedup_by_url rs seen uniq = uniq @ dedup_by_url rs seen []"
proof (induction rs arbitrary: seen uniq)
  case Nil
  show ?case by simp
next
  case (Cons r rs)
  show ?case
    using Cons.IH [of "insert (url r) seen" "uniq @ [r]"] Cons.IH [of "insert (url r) seen" "[r]"]
          Cons.IH [of seen uniq]
    by simp
qed

lemma dedup_by_url_Cons:
  "dedup_by_url (r # rs) seen [] =
     (if url r \<notin> seen then r # dedup_by_url rs (insert (url r) seen) [] else dedup_by_url rs seen [])"
  using dedup_by_url_acc [of rs "insert (url r) seen" "[r]"] by simp

lemma dedup_urls: "url ` set (dedup_by_url rs seen []) = url ` set rs - seen"
proof (induction rs arbitrary: seen)
  case Nil show ?case by simp
next
  case (Cons r rs)
  show ?case unfolding dedup_by_url_Cons using Cons.IH by auto
qed

lemma dedup_distinct: "distinct (map url (dedup_by_url rs seen []))"
proof (induction rs arbitrary: seen)
  case Nil show ?case by simp
next
  case (Cons r rs)
  have "url r \<notin> url ` set (dedup_by_url rs (insert (url r) seen) [])"
    unfolding dedup_urls by simp
  then show ?case unfolding dedup_by_url_Cons using Cons.IH by simp
qed

lemma dedup_subseq: "subseq (dedup_by_url rs seen []) rs"
proof (induction rs arbitrary: seen)
  case Nil show ?case by simp
next
  case (Cons r rs)
  show ?case unfolding dedup_by_url_Cons using Cons.IH by (auto intro: list_emb_Cons)
qed

lemma dedup_first:
  "x \<in> set (dedup_by_url rs seen []) \<Longrightarrow> find (\<lambda>y. url y = url x) rs = Some x"
proof (induction rs arbitrary: seen)
  case Nil then show ?case by simp
next
  case (Cons r rs)
  show ?case
  proof (cases "url r \<in> seen")
    case True
    with Cons.prems have m: "x \<in> set (dedup_by_url rs seen [])"
      unfolding dedup_by_url_Cons by simp
    then have "url x \<in> url ` set rs - seen" using dedup_urls [of rs seen] by blast
    with True have "url r \<noteq> url x" by auto
    with Cons.IH [OF m] show ?thesis by simp
  next
    case False
    with Cons.prems have "x = r \<or> x \<in> set (dedup_by_url rs (insert (url r) seen) [])"
      unfolding dedup_by_url_Cons by simp
    then show ?thesis
    proof
      assume "x = r" then show ?thesis by simp
    next
      assume m: "x \<in> set (dedup_by_url rs (insert (url r) seen) [])"
      then have "url x \<in> url ` set rs - insert (url r) seen"
        using dedup_urls [of rs "insert (url r) seen"] by blast
      then have "url r \<noteq> url x" by auto
      with Cons.IH [OF m] show ?thesis by simp
    qed
  qed
qed

lemma find_filter_imp:
  "(\<And>y. P y \<Longrightarrow> Q y) \<Longrightarrow> find P (filter Q xs) = find P xs"
  by (induction xs) auto

lemma search_each_ok:
  assumes "\<forall>tr q. \<exists>hs tr'. web_search e tr q count = (Inr hs, tr')"
  shows "\<exists>tr'. search_each e tr queries count results =
           (Inr (results @ filter (\<lambda>r. truthy (url r))
                              (map hit_item (concat (search_results e tr queries count)))), tr')
         \<and> length (search_results e tr queries count) = length queries"
proof (induction queries arbitrary: tr results)
  case Nil
  show ?case by simp
next
  case (Cons q queries)
  from assms obtain hs tr1 where w: "web_search e tr q count = (Inr hs, tr1)" by blast
  from Cons.IH [of tr1 "append_hits results hs"] w show ?case
    by (auto simp: append_hits_eq)
qed


lemma subseq_set: "subseq xs ys \<Longrightarrow> set xs \<subseteq> set ys"
  by (auto dest: list_emb_set)

text \<open>
  Claim C2. Whatever the queries and whatever the provider returns for each of them,
  \<open>gather_snippets\<close> returns a list in which every entry has a non-empty url, no two
  entries have the same url, the entries stand in the order in which their urls were
  first seen in the concatenated results of the queries (each entry is the first hit that
  carries its url), and there are at most 20 entries. Below the cap no url is lost.
\<close>

theorem gather_snippets_unique_capped:
  assumes "\<forall>tr q. \<exists>hs tr'. web_search e tr q count = (Inr hs, tr')"
  shows "\<exists>res tr'. gather_snippets e tr queries count = (Inr res, tr')
     \<and> length (search_results e (tr @ [GatherSnippets queries count]) queries count) = length queries
     \<and> (\<forall>r \<in> set res. \<exists>s. url r = PyStr s \<and> s \<noteq> [])
     \<and> distinct (map url res)
     \<and> subseq res (map hit_item (concat (search_results e (tr @ [GatherSnippets queries count]) queries count)))
     \<and> (\<forall>r \<in> set res. find (\<lambda>x. url x = url r)
            (map hit_item (concat (search_results e (tr @ [GatherSnippets queries count]) queries count)))
           = Some r)
     \<and> (length res < 20 \<longrightarrow>
          (\<forall>h \<in> set (concat (search_results e (tr @ [GatherSnippets queries count]) queries count)).
              truthy (url (hit_item h)) \<longrightarrow> url (hit_item h) \<in> url ` set res))
     \<and> length res \<le> 20"
proof -
  define tr0 where "tr0 = tr @ [GatherSnippets queries count]"
  define every where "every = map hit_item (concat (search_results e tr0 queries count))"
  define valid where "valid = filter (\<lambda>r. truthy (url r)) every"
  define uniq where "uniq = dedup_by_url valid {} []"
  define res where "res = take 20 uniq"
  from search_each_ok [OF assms, of tr0 queries "[]"]
  obtain tr' where se: "search_each e tr0 queries count [] = (Inr valid, tr')"
    and len: "length (search_results e tr0 queries count) = length queries"
    unfolding valid_def every_def by auto
  have g: "gather_snippets e tr queries count = (Inr res, tr')"
    using se by (simp add: gather_snippets_def tr0_def res_def uniq_def)
  have sub_ru: "set res \<subseteq> set uniq" unfolding res_def by (rule set_take_subset)
  have sub_uv: "set uniq \<subseteq> set valid"
    unfolding uniq_def by (rule subseq_set) (rule dedup_subseq)
  have nonempty: "\<forall>r \<in> set res. \<exists>s. url r = PyStr s \<and> s \<noteq> []"
  proof
    fix r assume "r \<in> set res"
    with sub_ru sub_uv have "r \<in> set valid" by blast
    then have "truthy (url r)" unfolding valid_def by simp
    then show "\<exists>s. url r = PyStr s \<and> s \<noteq> []" by (cases "url r") auto
  qed
  have dist: "distinct (map url res)"
    unfolding res_def uniq_def take_map [symmetric] by (rule distinct_take) (rule dedup_distinct)
  have "subseq res uniq" unfolding res_def by (rule prefix_imp_subseq) (rule take_is_prefix)
  moreover have "subseq uniq valid" unfolding uniq_def by (rule dedup_subseq)
  moreover have "subseq valid every" unfolding valid_def by simp
  ultimately have sub: "subseq res every" by (blast intro: subseq_order.order_trans)
  have first: "\<forall>r \<in> set res. find (\<lambda>x. url x = url r) every = Some r"
  proof
    fix r assume m: "r \<in> set res"
    with sub_ru have "r \<in> set uniq" by blast
    then have f: "find (\<lambda>x. url x = url r) valid = Some r"
      unfolding uniq_def by (rule dedup_first)
    from m sub_ru sub_uv have "truthy (url r)" unfolding valid_def by auto
    then have "find (\<lambda>x. url x = url r) valid = find (\<lambda>x. url x = url r) every"
      unfolding valid_def by (intro find_filter_imp) simp
    with f show "find (\<lambda>x. url x = url r) every = Some r" by simp
  qed
  have complete: "length res < 20 \<longrightarrow>
      (\<forall>h \<in> set (concat (search_results e tr0 queries count)).
          truthy (url (hit_item h)) \<longrightarrow> url (hit_item h) \<in> url ` set res)"
  proof (intro impI ballI)
    fix h assume l: "length res < 20"
      and h: "h \<in> set (concat (search_results e tr0 queries count))"
      and t: "truthy (url (hit_item h))"
    from l have "res = uniq" unfolding res_def by (simp add: min_def split: if_splits)
    moreover from h t have "hit_item h \<in> set valid" unfolding valid_def every_def by simp
    then have "url (hit_item h) \<in> url ` set valid - {}" by simp
    then have "url (hit_item h) \<in> url ` set uniq" unfolding uniq_def dedup_urls .
    ultimately show "url (hit_item h) \<in> url ` set res" by simp
  qed
  have cap: "length res \<le> 20" unfolding res_def by simp
  from g len nonempty dist sub first complete cap show ?thesis
    unfolding tr0_def every_def by blast
qed


lemma lower_serpapi: "lower ''serpapi'' = ''serpapi''"
  by code_simp


lemma stub_fields [simp]:
  "SEARCH_PROVIDER stub_env = ''serpapi''" "SERPAPI_API_KEY stub_env = Some ''key''"
  by (simp_all add: stub_env_def)

lemma stub_get:
  "requests_get stub_env tr endpoint params =
     (if (''q'', AStr ''q1'') \<in> set params
        then Inr \<lparr>status_code = 200, json = Inr [''organic_results'' \<mapsto>
               [provider_item ''A'' ''http://a'' ''sa'', provider_item ''B'' '' http://b '' ''sb'']]\<rparr>
        else Inr \<lparr>status_code = 200, json = Inr [''organic_results'' \<mapsto>
               [provider_item ''B2'' ''http://b'' ''sb2'', provider_item ''N'' '' '' ''sn'',
                provider_item ''C'' ''http://c'' ''sc'']]\<rparr>)"
  unfolding stub_env_def by (simp only: env.select_convs)

lemma stub_env_returns: "\<exists>hs tr'. web_search stub_env tr q 6 = (Inr hs, tr')"
  by (simp add: web_search_def serpapi_google_search_def fetch_items_def lower_serpapi stub_get)


theorem gather_snippets_unique_capped_witness:
  "(\<forall>tr q. \<exists>hs tr'. web_search stub_env tr q 6 = (Inr hs, tr'))
   \<and> fst (gather_snippets stub_env [] [''q1'', ''q2''] 6) =
       Inr [\<lparr>name = PyStr ''A'', url = PyStr ''http://a'', snippet = PyStr ''sa''\<rparr>,
            \<lparr>name = PyStr ''B'', url = PyStr ''http://b'', snippet = PyStr ''sb''\<rparr>,
            \<lparr>name = PyStr ''C'', url = PyStr ''http://c'', snippet = PyStr ''sc''\<rparr>]
   \<and> (\<exists>res tr'. gather_snippets stub_env [] [''q1'', ''q2''] 6 = (Inr res, tr')
        \<and> (\<forall>r \<in> set res. \<exists>s. url r = PyStr s \<and> s \<noteq> [])
        \<and> distinct (map url res) \<and> length res \<le> 20)"
proof -
  have h: "\<forall>tr q. \<exists>hs tr'. web_search stub_env tr q 6 = (Inr hs, tr')"
    using stub_env_returns by blast
  have v: "fst (gather_snippets stub_env [] [''q1'', ''q2''] 6) =
       Inr [\<lparr>name = PyStr ''A'', url = PyStr ''http://a'', snippet = PyStr ''sa''\<rparr>,
            \<lparr>name = PyStr ''B'', url = PyStr ''http://b'', snippet = PyStr ''sb''\<rparr>,
            \<lparr>name = PyStr ''C'', url = PyStr ''http://c'', snippet = PyStr ''sc''\<rparr>]"
    by (simp add: gather_snippets_def web_search_def serpapi_google_search_def fetch_items_def
          stub_get lower_serpapi serpapi_result_def provider_item_def hit_item_def
          get_or_def strip_def isspace_def)
  from gather_snippets_unique_capped [OF h, of "[]" "[''q1'', ''q2'']"] h v
  show ?thesis by blast
qed


lemma outage_fields:
  "SEARCH_PROVIDER outage_env = ''serpapi''" "SERPAPI_API_KEY outage_env = Some ''key''"
  "requests_get outage_env tr endpoint params =
     (if (''q'', AStr ''a'') \<in> set params
        then Inr \<lparr>status_code = 503, json = Inl (Raised ''JSONDecodeError'')\<rparr>
        else Inr \<lparr>status_code = 200, json = Inr [''organic_results'' \<mapsto>
               [provider_item ''B'' ''http://b'' ''sb'']]\<rparr>)"
  by (simp_all add: outage_env_def stub_env_def)

text \<open>
  Claim C3 says that an exception of the search provider for one query is caught inside
  \<open>gather_snippets\<close>, which still returns the hits of the other queries. The call of
  \<open>web_search\<close> is not inside a \<open>try\<close>: with a provider that answers the query \<open>a\<close>
  with status 503, \<open>gather_snippets\<close> on the queries \<open>a\<close> and \<open>b\<close> ends with the
  \<open>HTTPError\<close> of \<open>raise_for_status\<close>, although the query \<open>b\<close> alone yields a hit.
\<close>

theorem gather_snippets_propagates:
  "fst (gather_snippets outage_env [] [''a'', ''b''] 6) = Inl (HTTPError 503)
   \<and> fst (gather_snippets outage_env [] [''b''] 6) =
       Inr [\<lparr>name = PyStr ''B'', url = PyStr ''http://b'', snippet = PyStr ''sb''\<rparr>]"
  by (simp add: gather_snippets_def web_search_def serpapi_google_search_def fetch_items_def
        outage_fields lower_serpapi serpapi_result_def provider_item_def
        hit_item_def get_or_def strip_def isspace_def)


section \<open>The planner and the orchestrator\<close>

lemma strip_blank: "\<forall>ch \<in> set l. isspace ch \<Longrightarrow> strip l = []"
proof -
  assume "\<forall>ch \<in> set l. isspace ch"
  then have d: "dropWhile isspace l = []" by (simp add: dropWhile_eq_Nil_conv)
  show ?thesis unfolding strip_def d by simp
qed

lemma plan_search_queries:
  "search_queries (fst (plan e tr c p kb)) =
     take 4 (let lines = (case call_gemini e tr (SYSTEM_BASE e) (planner_prompt c p) of
                     Inl x \<Rightarrow> []
                   | Inr qtext \<Rightarrow> filter (\<lambda>l. l \<noteq> []) (map strip (splitlines qtext)))
             in if lines = [] then template_queries c p else lines)"
  by (simp add: plan_def Let_def)

lemma template_queries_eq:
  "template_queries c p =
     [strip c @ '' '' @ strip p @ '' latest figures'',
      strip c @ '' segment revenue by product last year'',
      strip c @ '' top products revenue '' @ strip p,
      strip c @ '' annual report product revenue breakdown'']"
  by (simp add: template_queries_def Let_def)

text \<open>
  Claim C4. If the text generator raises, or returns a text all of whose lines are
  blank, the plan's queries are exactly the four template queries, each non-empty and
  each containing the stripped company name. In every case the plan has at least one
  and at most four queries, none of them empty. \<open>plan\<close> has no exceptional result: the
  only call that can raise is inside the \<open>try\<close>.
\<close>

theorem plan_fallback_queries:
  "(((\<exists>x. call_gemini e tr (SYSTEM_BASE e) (planner_prompt c p) = Inl x)
      \<or> (\<exists>t. call_gemini e tr (SYSTEM_BASE e) (planner_prompt c p) = Inr t
              \<and> (\<forall>l \<in> set (splitlines t). \<forall>ch \<in> set l. isspace ch)))
     \<longrightarrow> search_queries (fst (plan e tr c p kb)) =
           [strip c @ '' '' @ strip p @ '' latest figures'',
            strip c @ '' segment revenue by product last year'',
            strip c @ '' top products revenue '' @ strip p,
            strip c @ '' annual report product revenue breakdown''])
   \<and> (\<forall>q \<in> set [strip c @ '' '' @ strip p @ '' latest figures'',
            strip c @ '' segment revenue by product last year'',
            strip c @ '' top products revenue '' @ strip p,
            strip c @ '' annual report product revenue breakdown''].
          q \<noteq> [] \<and> (\<exists>pre post. q = pre @ strip c @ post))
   \<and> search_queries (fst (plan e tr c p kb)) \<noteq> []
   \<and> length (search_queries (fst (plan e tr c p kb))) \<le> 4
   \<and> (\<forall>q \<in> set (search_queries (fst (plan e tr c p kb))). q \<noteq> [])"
proof -
  let ?out = "call_gemini e tr (SYSTEM_BASE e) (planner_prompt c p)"
  let ?T = "[strip c @ '' '' @ strip p @ '' latest figures'',
            strip c @ '' segment revenue by product last year'',
            strip c @ '' top products revenue '' @ strip p,
            strip c @ '' annual report product revenue breakdown'']"
  have blank: "filter (\<lambda>l. l \<noteq> []) (map strip (splitlines t)) = []"
    if "\<forall>l \<in> set (splitlines t). \<forall>ch \<in> set l. isspace ch" for t
    using that by (auto simp: filter_empty_conv strip_blank)
  have a: "((\<exists>x. ?out = Inl x) \<or> (\<exists>t. ?out = Inr t
              \<and> (\<forall>l \<in> set (splitlines t). \<forall>ch \<in> set l. isspace ch)))
     \<longrightarrow> search_queries (fst (plan e tr c p kb)) = ?T"
    unfolding plan_search_queries template_queries_eq using blank by (auto simp: Let_def)
  have b: "\<forall>q \<in> set ?T. q \<noteq> [] \<and> (\<exists>pre post. q = pre @ strip c @ post)"
  proof -
    have "\<exists>pre post. strip c @ s = pre @ strip c @ post" for s
      by (rule exI [of _ "[]"]) simp
    then show ?thesis by simp
  qed
  have ne: "take 4 xs \<noteq> []" if "xs \<noteq> []" for xs :: "string list"
    using that by (cases xs) simp_all
  have c: "search_queries (fst (plan e tr c p kb)) \<noteq> []"
    unfolding plan_search_queries template_queries_eq
    by (rule ne) (simp add: Let_def)
  have d: "length (search_queries (fst (plan e tr c p kb))) \<le> 4"
    unfolding plan_search_queries by simp
  have e: "\<forall>q \<in> set (search_queries (fst (plan e tr c p kb))). q \<noteq> []"
  proof
    fix q assume "q \<in> set (search_queries (fst (plan e tr c p kb)))"
    then have "q \<in> set (let lines = (case ?out of
                     Inl x \<Rightarrow> []
                   | Inr qtext \<Rightarrow> filter (\<lambda>l. l \<noteq> []) (map strip (splitlines qtext)))
             in if lines = [] then template_queries c p else lines)"
      unfolding plan_search_queries by (rule in_set_takeD)
    then show "q \<noteq> []"
      unfolding template_queries_eq by (auto simp: Let_def split: if_splits sum.splits)
  qed
  from a b c d e show ?thesis by blast
qed

text \<open>
  Claim C8. The plan has \<open>need_fresh_search = False\<close> exactly when \<open>kb_ready\<close> is true
  and the lowercased prompt contains one of \<open>use kb\<close>, \<open>from cached\<close>, \<open>from pdf\<close>,
  \<open>from overview\<close>; otherwise it is true.
\<close>

theorem plan_need_fresh_search_iff:
  "need_fresh_search (fst (plan e tr c p kb)) =
     (\<not> (kb \<and> (\<exists>k \<in> set [''use kb'', ''from cached'', ''from pdf'', ''from overview''].
                  \<exists>pre post. lower p = pre @ k @ post)))"
  by (simp add: plan_def Let_def isin_iff)


lemma synth_log_append: "synth_log (a @ b) = synth_log a @ synth_log b"
  by (induction a rule: synth_log.induct) auto

lemma gather_log_append: "gather_log (a @ b) = gather_log a @ gather_log b"
  by (induction a rule: gather_log.induct) auto

lemma search_log_append: "search_log (a @ b) = search_log a @ search_log b"
  by (induction a rule: search_log.induct) auto

lemma fetch_items_trace:
  "fetch_items e tr ep ps k mk = (r, tr') \<Longrightarrow> tr' = tr @ [RequestsGet ep ps]"
  by (auto simp: fetch_items_def Let_def split: sum.splits if_splits)

lemma provider_trace:
  "serpapi_google_search e tr q n = (r, tr') \<Longrightarrow> \<exists>ws. tr' = tr @ ws \<and> synth_log ws = [] \<and> gather_log ws = [] \<and> search_log ws = []"
  "google_cse_search e tr q n = (r, tr') \<Longrightarrow> \<exists>ws. tr' = tr @ ws \<and> synth_log ws = [] \<and> gather_log ws = [] \<and> search_log ws = []"
  by (auto simp: serpapi_google_search_def google_cse_search_def
           split: option.splits if_splits dest!: fetch_items_trace)

lemma web_search_trace:
  assumes "web_search e tr q n = (r, tr')"
  shows "\<exists>ws. tr' = tr @ WebSearch q n # ws \<and> synth_log ws = [] \<and> gather_log ws = []
           \<and> search_log ws = []"
proof -
  from assms have "serpapi_google_search e (tr @ [WebSearch q n]) q n = (r, tr')
      \<or> google_cse_search e (tr @ [WebSearch q n]) q n = (r, tr')"
    by (simp add: web_search_def Let_def split: if_splits)
  then obtain ws where "tr' = (tr @ [WebSearch q n]) @ ws" "synth_log ws = []"
      "gather_log ws = []" "search_log ws = []"
    using provider_trace by blast
  then show ?thesis by simp
qed

lemma search_each_trace:
  "search_each e tr qs n acc = (r, tr') \<Longrightarrow>
     \<exists>ws. tr' = tr @ ws \<and> synth_log ws = [] \<and> gather_log ws = []
        \<and> prefix (search_log ws) qs \<and> (qs \<noteq> [] \<longrightarrow> search_log ws \<noteq> [])"
proof (induction qs arbitrary: tr acc)
  case Nil
  then show ?case by simp
next
  case (Cons q qs)
  obtain r1 tr1 where w: "web_search e tr q n = (r1, tr1)" by (cases "web_search e tr q n")
  from web_search_trace [OF w] obtain ws1 where t1: "tr1 = tr @ WebSearch q n # ws1"
    and l1: "synth_log ws1 = []" "gather_log ws1 = []" "search_log ws1 = []" by blast
  show ?case
  proof (cases r1)
    case (Inl x)
    with Cons.prems w have "tr' = tr1" by simp
    with t1 l1 show ?thesis by simp
  next
    case (Inr hs)
    with Cons.prems w have "search_each e tr1 qs n (append_hits acc hs) = (r, tr')" by simp
    from Cons.IH [OF this] obtain ws2 where t2: "tr' = tr1 @ ws2"
      and l2: "synth_log ws2 = []" "gather_log ws2 = []" "prefix (search_log ws2) qs" by blast
    from t1 t2 have "tr' = tr @ (WebSearch q n # ws1 @ ws2)" by simp
    moreover have "synth_log (WebSearch q n # ws1 @ ws2) = []"
      "gather_log (WebSearch q n # ws1 @ ws2) = []"
      "search_log (WebSearch q n # ws1 @ ws2) = q # search_log ws2"
      using l1 l2 by (simp_all add: synth_log_append gather_log_append search_log_append)
    ultimately show ?thesis using l2(3) by auto
  qed
qed

lemma gather_snippets_trace:
  assumes "gather_snippets e tr qs n = (r, tr')"
  shows "\<exists>ws. tr' = tr @ GatherSnippets qs n # ws \<and> synth_log ws = [] \<and> gather_log ws = []
        \<and> prefix (search_log ws) qs \<and> (qs \<noteq> [] \<longrightarrow> search_log ws \<noteq> [])"
proof -
  obtain r0 tr0 where s: "search_each e (tr @ [GatherSnippets qs n]) qs n [] = (r0, tr0)"
    by (cases "search_each e (tr @ [GatherSnippets qs n]) qs n []")
  with assms have "tr' = tr0" by (auto simp: gather_snippets_def split: sum.splits)
  with search_each_trace [OF s] show ?thesis by auto
qed

lemma plan_trace:
  "snd (plan e tr c p kb) = tr @ [CallGemini (SYSTEM_BASE e) (planner_prompt c p)]"
  by (simp add: plan_def Let_def)


lemma answer_multi_shape:
  assumes run: "answer_multi e c y tr p kb = (r, tr')"
  shows "\<exists>new. tr' = tr @ new \<and>
           run_shape c y p (fst (plan e (tr @ [ReadJson c ''basic_overview'']) c p kb)) r new"
proof (cases "read_json e tr c ''basic_overview''")
  case (Inl x)
  with run have "r = Inl x" "tr' = tr @ [ReadJson c ''basic_overview'']"
    by (simp_all add: answer_multi_def)
  then show ?thesis by (auto simp: run_shape_def)
next
  case (Inr ov)
  define rj where "rj = ReadJson c ''basic_overview''"
  define pl where "pl = fst (plan e (tr @ [rj]) c p kb)"
  define cg where "cg = CallGemini (SYSTEM_BASE e) (planner_prompt c p)"
  define tr1 where "tr1 = tr @ [rj, cg]"
  define ovr where "ovr = (case doc_results ov of None \<Rightarrow> [] | Some rs \<Rightarrow> rs)"
  have pl_eq: "plan e (tr @ [rj]) c p kb = (pl, tr1)"
    unfolding pl_def tr1_def cg_def using plan_trace [of e "tr @ [rj]" c p kb]
    by (cases "plan e (tr @ [rj]) c p kb") simp
  obtain g1 tr2 where g1: "(if need_fresh_search pl then gather_snippets e tr1 (search_queries pl) 6
                   else (Inr [], tr1)) = (g1, tr2)"
    by (cases "if need_fresh_search pl then gather_snippets e tr1 (search_queries pl) 6
                   else (Inr [], tr1)")
  obtain w1 where w1: "tr2 = tr1 @ w1" "synth_log w1 = []"
     "gather_log w1 = (if need_fresh_search pl then [search_queries pl] else [])"
     "\<not> need_fresh_search pl \<longrightarrow> g1 = Inr [] \<and> w1 = []"
  proof (cases "need_fresh_search pl")
    case True
    with g1 have "gather_snippets e tr1 (search_queries pl) 6 = (g1, tr2)" by simp
    from gather_snippets_trace [OF this] True that show ?thesis by auto
  next
    case False
    with g1 that show ?thesis by auto
  qed
  have pre_logs: "synth_log ([rj, cg] @ w1) = []"
    "gather_log ([rj, cg] @ w1) = (if need_fresh_search pl then [search_queries pl] else [])"
    "\<not> need_fresh_search pl \<longrightarrow> search_log ([rj, cg] @ w1) = []"
    using w1 by (auto simp: rj_def cg_def)
  show ?thesis
  proof (cases g1)
    case (Inl x)
    with run Inr pl_eq g1 have "r = Inl x" "tr' = tr2"
      by (simp_all add: answer_multi_def rj_def ovr_def Let_def)
    with w1 have "tr' = tr @ ([rj, cg] @ w1)" by (simp add: tr1_def)
    moreover have "run_shape c y p pl r ([rj, cg] @ w1)"
      unfolding run_shape_def using pre_logs \<open>r = Inl x\<close> by blast
    ultimately show ?thesis unfolding pl_def rj_def by blast
  next
    case fresh: (Inr fresh1)
    define out1 where "out1 = synthesizer_answer e tr2 c p ovr fresh1"
    define s1 where "s1 = SynthesizerAnswer c p ovr fresh1 out1"
    have syn1: "synthesize e tr2 c p ovr fresh1 = (out1, tr2 @ [s1])"
      by (simp add: synthesize_def out1_def s1_def Let_def)
    have nf: "\<not> need_fresh_search pl \<longrightarrow> fresh1 = [] \<and> search_log ([rj, cg] @ w1) = []"
      using w1(4) fresh pre_logs(3) by auto
    show ?thesis
    proof (cases out1)
      case (Inl x)
      with run Inr pl_eq g1 fresh syn1 have "r = Inl x" "tr' = tr2 @ [s1]"
        by (simp_all add: answer_multi_def rj_def ovr_def Let_def)
      with w1 have t: "tr' = tr @ (([rj, cg] @ w1) @ s1 # [])" by (simp add: tr1_def)
      have "run_shape c y p pl r (([rj, cg] @ w1) @ s1 # [])"
        unfolding run_shape_def s1_def using pre_logs(1,2) nf Inl \<open>r = Inl x\<close>
        by (intro disjI2 exI conjI refl) auto
      with t show ?thesis unfolding pl_def rj_def by blast
    next
      case resp: (Inr resp1)
      show ?thesis
      proof (cases "needs_retry (answer resp1)")
        case False
        with run Inr pl_eq g1 fresh syn1 resp
        have "r = Inr (resp1\<lparr>resp_followups := Some (followups pl)\<rparr>)" "tr' = tr2 @ [s1]"
          by (simp_all add: answer_multi_def rj_def ovr_def Let_def)
        with w1 have t: "tr' = tr @ (([rj, cg] @ w1) @ s1 # [])"
          and rr: "r = Inr (resp1\<lparr>resp_followups := Some (followups pl)\<rparr>)"
          by (simp_all add: tr1_def)
        have "run_shape c y p pl r (([rj, cg] @ w1) @ s1 # [])"
          unfolding run_shape_def s1_def using pre_logs(1,2) nf resp False rr
          by (intro disjI2 exI conjI refl) auto
        with t show ?thesis unfolding pl_def rj_def by blast
      next
        case True
        obtain g2 tr4 where g2: "gather_snippets e (tr2 @ [s1]) (refine_q c y p) 6 = (g2, tr4)"
          by (cases "gather_snippets e (tr2 @ [s1]) (refine_q c y p) 6")
        from gather_snippets_trace [OF g2] obtain w2 where
          w2: "tr4 = (tr2 @ [s1]) @ GatherSnippets (refine_q c y p) 6 # w2"
             "synth_log w2 = []" "gather_log w2 = []"
             "prefix (search_log w2) (refine_q c y p)" "search_log w2 \<noteq> []"
          by (auto simp: refine_q_def)
        define gs where "gs = GatherSnippets (refine_q c y p) 6"
        show ?thesis
        proof (cases g2)
          case (Inl x)
          with run Inr pl_eq g1 fresh syn1 resp True g2 have "r = Inl x" "tr' = tr4"
            by (simp_all add: answer_multi_def rj_def ovr_def Let_def)
          with w1 w2 have t: "tr' = tr @ (([rj, cg] @ w1) @ s1 # (gs # w2))"
            by (simp add: tr1_def gs_def)
          have pl2: "gather_log (gs # w2) = [refine_q c y p]" "search_log (gs # w2) \<noteq> []"
            "prefix (search_log (gs # w2)) (refine_q c y p)" "synth_log (gs # w2) = []"
            using w2 by (simp_all add: gs_def)
          have "run_shape c y p pl r (([rj, cg] @ w1) @ s1 # (gs # w2))"
            unfolding run_shape_def s1_def using pre_logs(1,2) nf resp True pl2 \<open>r = Inl x\<close>
            by (intro disjI2 exI conjI refl) auto
          with t show ?thesis unfolding pl_def rj_def by blast
        next
          case fresh2: (Inr fresh2)
          define out2 where "out2 = synthesizer_answer e tr4 c p ovr fresh2"
          define s2 where "s2 = SynthesizerAnswer c p ovr fresh2 out2"
          have syn2: "synthesize e tr4 c p ovr fresh2 = (out2, tr4 @ [s2])"
            by (simp add: synthesize_def out2_def s2_def Let_def)
          from run Inr pl_eq g1 fresh syn1 resp True g2 fresh2 syn2
          have rr: "r = (case out2 of Inl x \<Rightarrow> Inl x
                     | Inr resp2 \<Rightarrow> Inr (resp2\<lparr>resp_followups := Some (followups pl)\<rparr>))"
            and "tr' = tr4 @ [s2]"
            by (auto simp: answer_multi_def rj_def ovr_def Let_def split: sum.splits)
          with w1 w2 have t: "tr' = tr @ (([rj, cg] @ w1) @ s1 # (gs # w2 @ [s2]))"
            by (simp add: tr1_def gs_def)
          have pl2: "gather_log (gs # w2 @ [s2]) = [refine_q c y p]"
            "search_log (gs # w2 @ [s2]) \<noteq> []"
            "prefix (search_log (gs # w2 @ [s2])) (refine_q c y p)"
            "synth_log (gs # w2 @ [s2]) = [(fresh2, out2)]"
            using w2 by (simp_all add: gs_def s2_def gather_log_append search_log_append
                  synth_log_append)
          have "run_shape c y p pl r (([rj, cg] @ w1) @ s1 # (gs # w2 @ [s2]))"
            unfolding run_shape_def s1_def using pre_logs(1,2) nf resp True pl2 rr
            by (intro disjI2 exI conjI refl) (auto split: sum.splits)
          with t show ?thesis unfolding pl_def rj_def by blast
        qed
      qed
    qed
  qed
qed


lemma plan_followups:
  "followups (fst (plan e tr c p kb)) =
     [''Should I compare the last 3 years or focus on the latest year?'',
      ''Do you want product-level revenue or segment-level revenue?'',
      ''Should I include competitor benchmarks for context?'']"
  by (simp add: plan_def Let_def)

lemma plan_need_fresh:
  "need_fresh_search (fst (plan e tr c p kb)) =
     (\<not> (kb \<and> (\<exists>k \<in> set [''use kb'', ''from cached'', ''from pdf'', ''from overview''].
                  isin k (lower p))))"
  by (simp add: plan_def Let_def)

lemma gather_snippets_ok:
  assumes "\<forall>tr q. \<exists>hs tr'. web_search e tr q n = (Inr hs, tr')"
  shows "\<exists>res tr'. gather_snippets e tr qs n = (Inr res, tr')"
  using search_each_ok [OF assms, of "tr @ [GatherSnippets qs n]" qs "[]"]
  by (auto simp: gather_snippets_def)

lemma answer_multi_returns:
  assumes ws: "\<forall>tr q. \<exists>hs tr'. web_search e tr q 6 = (Inr hs, tr')"
    and sy: "\<forall>tr ov fs. \<exists>resp. synthesizer_answer e tr c p ov fs = Inr resp"
    and rj: "\<exists>ov. read_json e tr c ''basic_overview'' = Inr ov"
  shows "\<exists>res. fst (answer_multi e c y tr p kb) = Inr res"
proof -
  from rj obtain ov where ov: "read_json e tr c ''basic_overview'' = Inr ov" by blast
  define ovr where "ovr = (case doc_results ov of None \<Rightarrow> [] | Some rs \<Rightarrow> rs)"
  obtain pl tr1 where pl: "plan e (tr @ [ReadJson c ''basic_overview'']) c p kb = (pl, tr1)"
    by (cases "plan e (tr @ [ReadJson c ''basic_overview'']) c p kb")
  have "\<exists>fresh tr2. (if need_fresh_search pl then gather_snippets e tr1 (search_queries pl) 6
                   else (Inr [], tr1)) = (Inr fresh, tr2)"
    using gather_snippets_ok [OF ws, of tr1 "search_queries pl"] by auto
  then obtain fresh tr2 where g1: "(if need_fresh_search pl
        then gather_snippets e tr1 (search_queries pl) 6 else (Inr [], tr1)) = (Inr fresh, tr2)"
    by blast
  from sy obtain resp1 where s1: "synthesizer_answer e tr2 c p ovr fresh = Inr resp1" by blast
  define tr3 where "tr3 = tr2 @ [SynthesizerAnswer c p ovr fresh (Inr resp1)]"
  have syn1: "synthesize e tr2 c p ovr fresh = (Inr resp1, tr3)"
    by (simp add: synthesize_def s1 tr3_def Let_def)
  show ?thesis
  proof (cases "needs_retry (answer resp1)")
    case False
    with ov pl g1 syn1 show ?thesis by (simp add: answer_multi_def ovr_def)
  next
    case True
    from gather_snippets_ok [OF ws, of tr3 "refine_q c y p"]
    obtain fresh2 tr4 where g2: "gather_snippets e tr3 (refine_q c y p) 6 = (Inr fresh2, tr4)"
      by blast
    from sy obtain resp2 where s2: "synthesizer_answer e tr4 c p ovr fresh2 = Inr resp2" by blast
    have syn2: "synthesize e tr4 c p ovr fresh2 =
        (Inr resp2, tr4 @ [SynthesizerAnswer c p ovr fresh2 (Inr resp2)])"
      by (simp add: synthesize_def s2 Let_def)
    from True ov pl g1 syn1 g2 syn2 show ?thesis by (simp add: answer_multi_def ovr_def)
  qed
qed

text \<open>
  What every run of \<open>answer_multi\<close> does, read from its record of calls: the synthesizer
  is called at most twice. If the first synthesis returns an answer, \<open>gather_snippets\<close>
  is called after it exactly when \<open>needs_retry\<close> holds of that answer, with the three
  broadened queries, which are searched in their order. Without a retry the first result
  is returned with the planner's follow-ups. With a retry there is at most one further
  synthesis, and a run that returns has made exactly two and returns the second result
  with the planner's follow-ups.
\<close>

lemma answer_multi_bounded_retry:
  assumes run: "answer_multi e c y tr p kb = (r, tr')"
  shows "\<exists>new. tr' = tr @ new
     \<and> length (synth_log new) \<le> 2
     \<and> ((synth_log new = [] \<and> (\<exists>x. r = Inl x)) \<or>
        (\<exists>pre ov fresh1 out1 post.
           new = pre @ SynthesizerAnswer c p ov fresh1 out1 # post \<and> synth_log pre = [] \<and>
           (case out1 of
              Inl x \<Rightarrow> post = [] \<and> r = Inl x
            | Inr resp1 \<Rightarrow>
               (needs_retry (answer resp1) \<longleftrightarrow>
                  gather_log post = [[c @ '' '' @ p @ '' latest report'',
                                      c @ '' product revenue table FY '' @ str_int y,
                                      c @ '' segment revenue by product'']])
               \<and> (\<not> needs_retry (answer resp1) \<longrightarrow>
                    post = [] \<and>
                    r = Inr (resp1\<lparr>resp_followups := Some
                          [''Should I compare the last 3 years or focus on the latest year?'',
                           ''Do you want product-level revenue or segment-level revenue?'',
                           ''Should I include competitor benchmarks for context?'']\<rparr>))
               \<and> (needs_retry (answer resp1) \<longrightarrow>
                    search_log post \<noteq> []
                    \<and> prefix (search_log post) [c @ '' '' @ p @ '' latest report'',
                                      c @ '' product revenue table FY '' @ str_int y,
                                      c @ '' segment revenue by product'']
                    \<and> length (synth_log post) \<le> 1
                    \<and> (\<forall>res. r = Inr res \<longrightarrow>
                         (\<exists>fresh2 resp2. synth_log post = [(fresh2, Inr resp2)] \<and>
                            res = resp2\<lparr>resp_followups := Some
                          [''Should I compare the last 3 years or focus on the latest year?'',
                           ''Do you want product-level revenue or segment-level revenue?'',
                           ''Should I include competitor benchmarks for context?'']\<rparr>))))))
     \<and> ((\<forall>tr q. \<exists>hs tr'. web_search e tr q 6 = (Inr hs, tr'))
          \<and> (\<forall>tr ov fs. \<exists>resp. synthesizer_answer e tr c p ov fs = Inr resp)
          \<and> (\<exists>ov. read_json e tr c ''basic_overview'' = Inr ov)
        \<longrightarrow> (\<exists>res. r = Inr res))"
proof -
  define pl where "pl = fst (plan e (tr @ [ReadJson c ''basic_overview'']) c p kb)"
  have fu: "followups pl =
     [''Should I compare the last 3 years or focus on the latest year?'',
      ''Do you want product-level revenue or segment-level revenue?'',
      ''Should I include competitor benchmarks for context?'']"
    unfolding pl_def by (rule plan_followups)
  have rq: "refine_q c y p = [c @ '' '' @ p @ '' latest report'',
                                      c @ '' product revenue table FY '' @ str_int y,
                                      c @ '' segment revenue by product'']"
    by (simp add: refine_q_def)
  from answer_multi_shape [OF run] obtain new where t: "tr' = tr @ new"
    and sh: "run_shape c y p pl r new" unfolding pl_def by blast
  have total: "(\<forall>tr q. \<exists>hs tr'. web_search e tr q 6 = (Inr hs, tr'))
          \<and> (\<forall>tr ov fs. \<exists>resp. synthesizer_answer e tr c p ov fs = Inr resp)
          \<and> (\<exists>ov. read_json e tr c ''basic_overview'' = Inr ov)
        \<longrightarrow> (\<exists>res. r = Inr res)"
    using answer_multi_returns [of e c p tr y kb] run by auto
  from sh consider
      (none) "synth_log new = []" "\<exists>x. r = Inl x"
    | (some) pre ov fresh1 out1 post where
        "new = pre @ SynthesizerAnswer c p ov fresh1 out1 # post" "synth_log pre = []"
        "case out1 of
             Inl x \<Rightarrow> post = [] \<and> r = Inl x
           | Inr resp1 \<Rightarrow>
               if needs_retry (answer resp1) then
                 gather_log post = [refine_q c y p] \<and> search_log post \<noteq> [] \<and>
                 prefix (search_log post) (refine_q c y p) \<and>
                 ((synth_log post = [] \<and> (\<exists>x. r = Inl x)) \<or>
                  (\<exists>fresh2 out2. synth_log post = [(fresh2, out2)] \<and>
                      (case out2 of
                         Inl x \<Rightarrow> r = Inl x
                       | Inr resp2 \<Rightarrow> r = Inr (resp2\<lparr>resp_followups := Some (followups pl)\<rparr>))))
               else post = [] \<and> r = Inr (resp1\<lparr>resp_followups := Some (followups pl)\<rparr>)"
    unfolding run_shape_def by blast
  then show ?thesis
  proof cases
    case none
    with t total show ?thesis by auto
  next
    case some
    have post_log: "length (synth_log post) \<le> 1
        \<and> (\<forall>res. r = Inr res \<longrightarrow>
              (\<exists>fresh2 resp2. synth_log post = [(fresh2, Inr resp2)] \<and>
                   res = resp2\<lparr>resp_followups := Some (followups pl)\<rparr>))"
      if o1: "out1 = Inr resp1" and fl: "needs_retry (answer resp1)" for resp1
    proof -
      from some(3) o1 fl have "(synth_log post = [] \<and> (\<exists>x. r = Inl x)) \<or>
                  (\<exists>fresh2 out2. synth_log post = [(fresh2, out2)] \<and>
                      (case out2 of
                         Inl x \<Rightarrow> r = Inl x
                       | Inr resp2 \<Rightarrow> r = Inr (resp2\<lparr>resp_followups := Some (followups pl)\<rparr>)))"
        by simp
      then show ?thesis
      proof
        assume "synth_log post = [] \<and> (\<exists>x. r = Inl x)"
        then show ?thesis by auto
      next
        assume "\<exists>fresh2 out2. synth_log post = [(fresh2, out2)] \<and>
                      (case out2 of
                         Inl x \<Rightarrow> r = Inl x
                       | Inr resp2 \<Rightarrow> r = Inr (resp2\<lparr>resp_followups := Some (followups pl)\<rparr>))"
        then obtain fresh2 out2 where "synth_log post = [(fresh2, out2)]"
          "case out2 of
                         Inl x \<Rightarrow> r = Inl x
                       | Inr resp2 \<Rightarrow> r = Inr (resp2\<lparr>resp_followups := Some (followups pl)\<rparr>)"
          by blast
        then show ?thesis by (cases out2) auto
      qed
    qed
    have post_nil: "post = []" if "out1 = Inl x" for x
      using some(3) that by simp
    have post_nil': "post = []" if "out1 = Inr resp1" "\<not> needs_retry (answer resp1)" for resp1
      using some(3) that by simp
    have len: "length (synth_log new) \<le> 2"
    proof (cases out1)
      case (Inl x)
      with post_nil some(1,2) show ?thesis by (simp add: synth_log_append)
    next
      case (Inr resp1)
      show ?thesis
      proof (cases "needs_retry (answer resp1)")
        case True
        with post_log [OF Inr] some(1,2) show ?thesis by (simp add: synth_log_append)
      next
        case False
        with post_nil' [OF Inr] some(1,2) show ?thesis by (simp add: synth_log_append)
      qed
    qed
    have body: "case out1 of
              Inl x \<Rightarrow> post = [] \<and> r = Inl x
            | Inr resp1 \<Rightarrow>
               (needs_retry (answer resp1) \<longleftrightarrow>
                  gather_log post = [[c @ '' '' @ p @ '' latest report'',
                                      c @ '' product revenue table FY '' @ str_int y,
                                      c @ '' segment revenue by product'']])
               \<and> (\<not> needs_retry (answer resp1) \<longrightarrow>
                    post = [] \<and>
                    r = Inr (resp1\<lparr>resp_followups := Some
                          [''Should I compare the last 3 years or focus on the latest year?'',
                           ''Do you want product-level revenue or segment-level revenue?'',
                           ''Should I include competitor benchmarks for context?'']\<rparr>))
               \<and> (needs_retry (answer resp1) \<longrightarrow>
                    search_log post \<noteq> []
                    \<and> prefix (search_log post) [c @ '' '' @ p @ '' latest report'',
                                      c @ '' product revenue table FY '' @ str_int y,
                                      c @ '' segment revenue by product'']
                    \<and> length (synth_log post) \<le> 1
                    \<and> (\<forall>res. r = Inr res \<longrightarrow>
                         (\<exists>fresh2 resp2. synth_log post = [(fresh2, Inr resp2)] \<and>
                            res = resp2\<lparr>resp_followups := Some
                          [''Should I compare the last 3 years or focus on the latest year?'',
                           ''Do you want product-level revenue or segment-level revenue?'',
                           ''Should I include competitor benchmarks for context?'']\<rparr>)))"
    proof (cases out1)
      case (Inl x)
      with some(3) show ?thesis by simp
    next
      case (Inr resp1)
      show ?thesis
      proof (cases "needs_retry (answer resp1)")
        case True
        with some(3) Inr have "gather_log post = [refine_q c y p]" "search_log post \<noteq> []"
          "prefix (search_log post) (refine_q c y p)" by simp_all
        with post_log [OF Inr True] Inr True show ?thesis unfolding fu rq by simp
      next
        case False
        with some(3) Inr have "post = []"
          "r = Inr (resp1\<lparr>resp_followups := Some (followups pl)\<rparr>)" by simp_all
        with Inr False show ?thesis unfolding fu by simp
      qed
    qed
    from t len some(1,2) body total show ?thesis by blast
  qed
qed


lemma stub_more:
  "SYSTEM_BASE stub_env = ''system''"
  "call_gemini stub_env tr sys pr = Inr blank_text"
  "read_json stub_env tr c n = Inr \<lparr>doc_summary = None, doc_results = None\<rparr>"
  "synthesizer_answer stub_env tr c q ov fs =
     (if synth_log tr = []
        then Inr \<lparr>answer = ''(No answer)'', sources = [], hits = [], resp_followups = None\<rparr>
        else Inr \<lparr>answer = ''Revenue grew in 2023 to 20B'', sources = [], hits = [],
                  resp_followups = None\<rparr>)"
  by (simp_all add: stub_env_def)

lemma eval_strings:
  "lower ''revenue'' = ''revenue''"
  "lower ''Use KB for revenue'' = ''use kb for revenue''"
  "needs_retry ''(No answer)''"
  "\<not> needs_retry ''Revenue grew in 2023 to 20B''"
  "splitlines blank_text = ['' '', [CHR 0x09]]"
  "str_int 3 = ''3''"
  "isin ''use kb'' ''use kb for revenue''"
  by code_simp+

lemma stub_plan:
  "plan stub_env tr ''Nokia'' ''revenue'' True =
     (\<lparr>need_fresh_search = True,
       search_queries = [''Nokia revenue latest figures'',
          ''Nokia segment revenue by product last year'',
          ''Nokia top products revenue revenue'',
          ''Nokia annual report product revenue breakdown''],
       followups = [''Should I compare the last 3 years or focus on the latest year?'',
                    ''Do you want product-level revenue or segment-level revenue?'',
                    ''Should I include competitor benchmarks for context?'']\<rparr>,
      tr @ [CallGemini ''system'' (planner_prompt ''Nokia'' ''revenue'')])"
  by (simp add: plan_def stub_more eval_strings template_queries_def strip_def isspace_def
       Let_def)


lemmas search_defs = gather_snippets_def web_search_def serpapi_google_search_def fetch_items_def
  lower_serpapi serpapi_result_def provider_item_def hit_item_def get_or_def strip_def isspace_def

lemma stub_run:
  "fst (answer_multi stub_env ''Nokia'' 3 [] ''revenue'' True) =
     Inr \<lparr>answer = ''Revenue grew in 2023 to 20B'', sources = [], hits = [],
          resp_followups = Some
             [''Should I compare the last 3 years or focus on the latest year?'',
              ''Do you want product-level revenue or segment-level revenue?'',
              ''Should I include competitor benchmarks for context?'']\<rparr>"
  "map snd (synth_log (snd (answer_multi stub_env ''Nokia'' 3 [] ''revenue'' True))) =
     [Inr \<lparr>answer = ''(No answer)'', sources = [], hits = [], resp_followups = None\<rparr>,
      Inr \<lparr>answer = ''Revenue grew in 2023 to 20B'', sources = [], hits = [],
           resp_followups = None\<rparr>]"
  by (simp_all add: answer_multi_def stub_plan stub_more stub_get stub_fields eval_strings
        synthesize_def refine_q_def search_defs synth_log_append Let_def)


lemma answer_multi_bounded_retry_witness:
  "fst (answer_multi stub_env ''Nokia'' 3 [] ''revenue'' True) =
     Inr \<lparr>answer = ''Revenue grew in 2023 to 20B'', sources = [], hits = [],
          resp_followups = Some
             [''Should I compare the last 3 years or focus on the latest year?'',
              ''Do you want product-level revenue or segment-level revenue?'',
              ''Should I include competitor benchmarks for context?'']\<rparr>
   \<and> map snd (synth_log (snd (answer_multi stub_env ''Nokia'' 3 [] ''revenue'' True))) =
     [Inr \<lparr>answer = ''(No answer)'', sources = [], hits = [], resp_followups = None\<rparr>,
      Inr \<lparr>answer = ''Revenue grew in 2023 to 20B'', sources = [], hits = [],
           resp_followups = None\<rparr>]
   \<and> (\<exists>new. snd (answer_multi stub_env ''Nokia'' 3 [] ''revenue'' True) = [] @ new
          \<and> length (synth_log new) \<le> 2)
   \<and> (\<exists>res. fst (answer_multi stub_env ''Nokia'' 3 [] ''revenue'' True) = Inr res)"
proof -
  let ?run = "answer_multi stub_env ''Nokia'' 3 [] ''revenue'' True"
  have run: "?run = (fst ?run, snd ?run)" by simp
  have h1: "\<forall>tr q. \<exists>hs tr'. web_search stub_env tr q 6 = (Inr hs, tr')"
    using stub_env_returns by blast
  have h2: "\<forall>tr ov fs. \<exists>resp. synthesizer_answer stub_env tr ''Nokia'' ''revenue'' ov fs = Inr resp"
    by (simp add: stub_more)
  have h3: "\<exists>ov. read_json stub_env [] ''Nokia'' ''basic_overview'' = Inr ov"
    by (simp add: stub_more)
  from answer_multi_bounded_retry [OF run] obtain new where
    n: "snd ?run = [] @ new" "length (synth_log new) \<le> 2"
    and tot: "(\<forall>tr q. \<exists>hs tr'. web_search stub_env tr q 6 = (Inr hs, tr'))
          \<and> (\<forall>tr ov fs. \<exists>resp. synthesizer_answer stub_env tr ''Nokia'' ''revenue'' ov fs = Inr resp)
          \<and> (\<exists>ov. read_json stub_env [] ''Nokia'' ''basic_overview'' = Inr ov)
        \<longrightarrow> (\<exists>res. fst ?run = Inr res)"
    by (elim exE conjE) 
  from tot h1 h2 h3 have "\<exists>res. fst ?run = Inr res" by blast
  with n stub_run show ?thesis by blast
qed

lemma outage2_fields:
  "SEARCH_PROVIDER retry_outage_env = ''serpapi''"
  "SERPAPI_API_KEY retry_outage_env = Some ''key''"
  "SYSTEM_BASE retry_outage_env = ''system''"
  "call_gemini retry_outage_env tr sys pr = Inr blank_text"
  "read_json retry_outage_env tr c n = Inr \<lparr>doc_summary = None, doc_results = None\<rparr>"
  "synthesizer_answer retry_outage_env tr c q ov fs = synthesizer_answer stub_env tr c q ov fs"
  "requests_get retry_outage_env tr endpoint params =
     (if (''q'', AStr ''Nokia revenue latest report'') \<in> set params
        then Inr \<lparr>status_code = 503, json = Inl (Raised ''JSONDecodeError'')\<rparr>
        else Inr \<lparr>status_code = 200, json = Inr [''organic_results'' \<mapsto>
               [provider_item ''A'' ''http://a'' ''sa'']]\<rparr>)"
  by (simp_all add: retry_outage_env_def stub_env_def)

lemma outage2_plan:
  "plan retry_outage_env tr ''Nokia'' ''revenue'' True = plan stub_env tr ''Nokia'' ''revenue'' True"
  by (simp add: plan_def outage2_fields stub_more)

text \<open>
  The path of the retry, step by step: when the first answer is flagged, the second
  synthesis receives the snippets that \<open>gather_snippets\<close> returns for the three
  broadened queries, and its result is returned with the planner's follow-ups.
\<close>

lemma answer_multi_retry_path:
  assumes rj: "read_json e tr c ''basic_overview'' = Inr ov"
    and ovr: "ovr = (case doc_results ov of None \<Rightarrow> [] | Some rs \<Rightarrow> rs)"
    and pl: "plan e (tr @ [ReadJson c ''basic_overview'']) c p kb = (pl, tr1)"
    and g1: "(if need_fresh_search pl then gather_snippets e tr1 (search_queries pl) 6
              else (Inr [], tr1)) = (Inr fresh1, tr2)"
    and s1: "synthesizer_answer e tr2 c p ovr fresh1 = Inr resp1"
    and fl: "needs_retry (answer resp1)"
    and g2: "gather_snippets e (tr2 @ [SynthesizerAnswer c p ovr fresh1 (Inr resp1)])
               [c @ '' '' @ p @ '' latest report'',
                c @ '' product revenue table FY '' @ str_int y,
                c @ '' segment revenue by product''] 6 = (Inr fresh2, tr4)"
    and s2: "synthesizer_answer e tr4 c p ovr fresh2 = Inr resp2"
  shows "answer_multi e c y tr p kb =
           (Inr (resp2\<lparr>resp_followups := Some (followups pl)\<rparr>),
            tr4 @ [SynthesizerAnswer c p ovr fresh2 (Inr resp2)])"
  using rj pl g1 s1 fl g2 s2 unfolding ovr
  by (simp add: answer_multi_def synthesize_def refine_q_def Let_def)

text \<open>
  Claim C1 says that whenever the first answer is flagged the synthesis path is invoked
  exactly twice and the second result is returned. The retrieval of the retry is not
  inside a \<open>try\<close>: with a provider that answers the first broadened query with status
  503, the first answer \<open>(No answer)\<close> is flagged, the synthesizer has been called once,
  and \<open>answer_multi\<close> ends with the \<open>HTTPError\<close> that \<open>gather_snippets\<close> lets through,
  without a second synthesis and without a result.
\<close>

theorem answer_multi_retry_raises:
  "fst (answer_multi retry_outage_env ''Nokia'' 3 [] ''revenue'' True) = Inl (HTTPError 503)
   \<and> map snd (synth_log (snd (answer_multi retry_outage_env ''Nokia'' 3 [] ''revenue'' True))) =
       [Inr \<lparr>answer = ''(No answer)'', sources = [], hits = [], resp_followups = None\<rparr>]
   \<and> needs_retry ''(No answer)''"
  by (simp add: answer_multi_def outage2_plan stub_plan outage2_fields stub_more eval_strings
        synthesize_def refine_q_def search_defs synth_log_append Let_def)

section \<open>The retry and the cache-only signal\<close>

lemma prefix_hd: "xs \<noteq> [] \<Longrightarrow> prefix xs (q # qs) \<Longrightarrow> \<exists>rest. xs = q # rest"
  by (cases xs) auto

text \<open>
  Claim C10. When \<open>kb_ready\<close> is true and the lowercased prompt contains a cache-only
  trigger, the plan has \<open>need_fresh_search = False\<close>: nothing is searched before the
  first synthesis, which gets an empty list of fresh snippets. If the critic flags the
  first answer, \<open>gather_snippets\<close> is nevertheless called on the three broadened queries
  and \<open>web_search\<close> is called, the first broadened query first.
\<close>

theorem retry_searches_when_cache_only:
  assumes run: "answer_multi e c y tr p kb = (r, tr')"
    and kb: "kb"
    and trig: "\<exists>k \<in> set [''use kb'', ''from cached'', ''from pdf'', ''from overview''].
                 \<exists>pre post. lower p = pre @ k @ post"
  shows "\<not> need_fresh_search (fst (plan e (tr @ [ReadJson c ''basic_overview'']) c p kb))
     \<and> (\<exists>new. tr' = tr @ new \<and>
          ((synth_log new = [] \<and> (\<exists>x. r = Inl x)) \<or>
           (\<exists>pre ov out1 post.
               new = pre @ SynthesizerAnswer c p ov [] out1 # post
               \<and> synth_log pre = [] \<and> gather_log pre = [] \<and> search_log pre = []
               \<and> (\<forall>resp1. out1 = Inr resp1 \<and> needs_retry (answer resp1) \<longrightarrow>
                     gather_log post = [[c @ '' '' @ p @ '' latest report'',
                                         c @ '' product revenue table FY '' @ str_int y,
                                         c @ '' segment revenue by product'']]
                     \<and> (\<exists>rest. search_log post = (c @ '' '' @ p @ '' latest report'') # rest))
               \<and> (\<forall>resp1. out1 = Inr resp1 \<and> \<not> needs_retry (answer resp1) \<longrightarrow> post = []))))"
proof -
  define pl where "pl = fst (plan e (tr @ [ReadJson c ''basic_overview'']) c p kb)"
  have nf: "\<not> need_fresh_search pl"
    unfolding pl_def plan_need_fresh using kb trig by (simp add: isin_iff)
  have rq: "refine_q c y p = [c @ '' '' @ p @ '' latest report'',
                                      c @ '' product revenue table FY '' @ str_int y,
                                      c @ '' segment revenue by product'']"
    by (simp add: refine_q_def)
  from answer_multi_shape [OF run] obtain new where t: "tr' = tr @ new"
    and sh: "run_shape c y p pl r new" unfolding pl_def by blast
  from sh nf consider
      (none) "synth_log new = []" "\<exists>x. r = Inl x"
    | (some) pre ov fresh1 out1 post where
        "new = pre @ SynthesizerAnswer c p ov fresh1 out1 # post" "synth_log pre = []"
        "gather_log pre = []" "fresh1 = []" "search_log pre = []"
        "case out1 of
             Inl x \<Rightarrow> post = [] \<and> r = Inl x
           | Inr resp1 \<Rightarrow>
               if needs_retry (answer resp1) then
                 gather_log post = [refine_q c y p] \<and> search_log post \<noteq> [] \<and>
                 prefix (search_log post) (refine_q c y p) \<and>
                 ((synth_log post = [] \<and> (\<exists>x. r = Inl x)) \<or>
                  (\<exists>fresh2 out2. synth_log post = [(fresh2, out2)] \<and>
                      (case out2 of
                         Inl x \<Rightarrow> r = Inl x
                       | Inr resp2 \<Rightarrow> r = Inr (resp2\<lparr>resp_followups := Some (followups pl)\<rparr>))))
               else post = [] \<and> r = Inr (resp1\<lparr>resp_followups := Some (followups pl)\<rparr>)"
    unfolding run_shape_def by auto
  then show ?thesis
  proof cases
    case none
    with t nf show ?thesis unfolding pl_def by blast
  next
    case some
    have a: "gather_log post = [[c @ '' '' @ p @ '' latest report'',
                                         c @ '' product revenue table FY '' @ str_int y,
                                         c @ '' segment revenue by product'']]
           \<and> (\<exists>rest. search_log post = (c @ '' '' @ p @ '' latest report'') # rest)"
      if "out1 = Inr resp1" "needs_retry (answer resp1)" for resp1
    proof -
      from some(6) that have g: "gather_log post = [refine_q c y p]"
        and ne: "search_log post \<noteq> []"
        and pf: "prefix (search_log post) (refine_q c y p)" by simp_all
      from prefix_hd [OF ne pf [unfolded rq]] g show ?thesis unfolding rq by simp
    qed
    have b: "post = []" if "out1 = Inr resp1" "\<not> needs_retry (answer resp1)" for resp1
      using some(6) that by simp
    from some(1) have n: "new = pre @ SynthesizerAnswer c p ov [] out1 # post"
      unfolding some(4) .
    from t nf n some(2,3,5) a b show ?thesis unfolding pl_def by blast
  qed
qed

lemma stub_plan_kb:
  "plan stub_env tr ''Nokia'' ''Use KB for revenue'' True =
     (\<lparr>need_fresh_search = False,
       search_queries = [''Nokia Use KB for revenue latest figures'',
          ''Nokia segment revenue by product last year'',
          ''Nokia top products revenue Use KB for revenue'',
          ''Nokia annual report product revenue breakdown''],
       followups = [''Should I compare the last 3 years or focus on the latest year?'',
                    ''Do you want product-level revenue or segment-level revenue?'',
                    ''Should I include competitor benchmarks for context?'']\<rparr>,
      tr @ [CallGemini ''system'' (planner_prompt ''Nokia'' ''Use KB for revenue'')])"
  by (simp add: plan_def stub_more eval_strings template_queries_def strip_def isspace_def
       Let_def)

lemma stub_run_kb:
  "gather_log (snd (answer_multi stub_env ''Nokia'' 3 [] ''Use KB for revenue'' True)) =
     [[''Nokia Use KB for revenue latest report'', ''Nokia product revenue table FY 3'',
       ''Nokia segment revenue by product'']]"
  "search_log (snd (answer_multi stub_env ''Nokia'' 3 [] ''Use KB for revenue'' True)) =
     [''Nokia Use KB for revenue latest report'', ''Nokia product revenue table FY 3'',
       ''Nokia segment revenue by product'']"
  "map fst (synth_log (snd (answer_multi stub_env ''Nokia'' 3 [] ''Use KB for revenue'' True))) =
     [[], [\<lparr>name = PyStr ''B2'', url = PyStr ''http://b'', snippet = PyStr ''sb2''\<rparr>,
           \<lparr>name = PyStr ''C'', url = PyStr ''http://c'', snippet = PyStr ''sc''\<rparr>]]"
  by (simp_all add: answer_multi_def stub_plan_kb stub_more stub_get stub_fields eval_strings
        synthesize_def refine_q_def search_defs synth_log_append gather_log_append
        search_log_append Let_def)

theorem retry_searches_when_cache_only_witness:
  "True
   \<and> (\<exists>k \<in> set [''use kb'', ''from cached'', ''from pdf'', ''from overview''].
                 \<exists>pre post. lower ''Use KB for revenue'' = pre @ k @ post)
   \<and> \<not> need_fresh_search (fst (plan stub_env ([] @ [ReadJson ''Nokia'' ''basic_overview''])
          ''Nokia'' ''Use KB for revenue'' True))
   \<and> gather_log (snd (answer_multi stub_env ''Nokia'' 3 [] ''Use KB for revenue'' True)) =
     [[''Nokia Use KB for revenue latest report'', ''Nokia product revenue table FY 3'',
       ''Nokia segment revenue by product'']]
   \<and> search_log (snd (answer_multi stub_env ''Nokia'' 3 [] ''Use KB for revenue'' True)) =
     [''Nokia Use KB for revenue latest report'', ''Nokia product revenue table FY 3'',
       ''Nokia segment revenue by product'']"
proof -
  let ?run = "answer_multi stub_env ''Nokia'' 3 [] ''Use KB for revenue'' True"
  have run: "?run = (fst ?run, snd ?run)" by simp
  have "isin ''use kb'' (lower ''Use KB for revenue'')" by (simp only: eval_strings)
  then have trig: "\<exists>k \<in> set [''use kb'', ''from cached'', ''from pdf'', ''from overview''].
                 \<exists>pre post. lower ''Use KB for revenue'' = pre @ k @ post"
    unfolding isin_iff by simp
  from retry_searches_when_cache_only [OF run TrueI trig]
  have "\<not> need_fresh_search (fst (plan stub_env ([] @ [ReadJson ''Nokia'' ''basic_overview''])
          ''Nokia'' ''Use KB for revenue'' True))"
    by (elim conjE)
  with trig stub_run_kb show ?thesis by blast
qed


lemma quota_fields:
  "SYSTEM_BASE quota_env = ''system''"
  "call_gemini quota_env tr sys pr = Inl (Raised ''ResourceExhausted'')"
  by (simp_all add: quota_env_def stub_env_def)

lemma eval_strip: "strip '' Nokia '' = ''Nokia''" "strip ''revenue'' = ''revenue''"
  by (simp_all add: strip_def isspace_def)

theorem plan_fallback_queries_witness:
  "(\<exists>x. call_gemini quota_env [] (SYSTEM_BASE quota_env) (planner_prompt '' Nokia '' ''revenue'') = Inl x)
   \<and> search_queries (fst (plan quota_env [] '' Nokia '' ''revenue'' True)) =
       [''Nokia revenue latest figures'', ''Nokia segment revenue by product last year'',
        ''Nokia top products revenue revenue'', ''Nokia annual report product revenue breakdown'']
   \<and> (\<exists>t. call_gemini stub_env [] (SYSTEM_BASE stub_env) (planner_prompt '' Nokia '' ''revenue'') = Inr t
          \<and> (\<forall>l \<in> set (splitlines t). \<forall>ch \<in> set l. isspace ch))
   \<and> search_queries (fst (plan stub_env [] '' Nokia '' ''revenue'' True)) =
       [''Nokia revenue latest figures'', ''Nokia segment revenue by product last year'',
        ''Nokia top products revenue revenue'', ''Nokia annual report product revenue breakdown'']"
proof -
  have h1: "\<exists>x. call_gemini quota_env [] (SYSTEM_BASE quota_env)
               (planner_prompt '' Nokia '' ''revenue'') = Inl x"
    by (simp add: quota_fields)
  have h2: "\<exists>t. call_gemini stub_env [] (SYSTEM_BASE stub_env)
               (planner_prompt '' Nokia '' ''revenue'') = Inr t
          \<and> (\<forall>l \<in> set (splitlines t). \<forall>ch \<in> set l. isspace ch)"
    by (simp add: stub_more eval_strings isspace_def)
  have q1: "search_queries (fst (plan quota_env [] '' Nokia '' ''revenue'' True)) =
           [strip '' Nokia '' @ '' '' @ strip ''revenue'' @ '' latest figures'',
            strip '' Nokia '' @ '' segment revenue by product last year'',
            strip '' Nokia '' @ '' top products revenue '' @ strip ''revenue'',
            strip '' Nokia '' @ '' annual report product revenue breakdown'']"
    using plan_fallback_queries [of quota_env "[]" "'' Nokia ''" "''revenue''" True] h1
    by blast
  have q2: "search_queries (fst (plan stub_env [] '' Nokia '' ''revenue'' True)) =
           [strip '' Nokia '' @ '' '' @ strip ''revenue'' @ '' latest figures'',
            strip '' Nokia '' @ '' segment revenue by product last year'',
            strip '' Nokia '' @ '' top products revenue '' @ strip ''revenue'',
            strip '' Nokia '' @ '' annual report product revenue breakdown'']"
    using plan_fallback_queries [of stub_env "[]" "'' Nokia ''" "''revenue''" True] h2
    by blast
  from h1 h2 q1 q2 show ?thesis unfolding eval_strip by simp
qed

theorem plan_need_fresh_search_iff_witness:
  "(\<exists>k \<in> set [''use kb'', ''from cached'', ''from pdf'', ''from overview''].
        \<exists>pre post. lower ''Use KB for revenue'' = pre @ k @ post)
   \<and> need_fresh_search (fst (plan stub_env [] ''Nokia'' ''Use KB for revenue'' True)) = False
   \<and> need_fresh_search (fst (plan stub_env [] ''Nokia'' ''Use KB for revenue'' False)) = True
   \<and> need_fresh_search (fst (plan stub_env [] ''Nokia'' ''revenue'' True)) = True"
proof -
  have "isin ''use kb'' (lower ''Use KB for revenue'')" by (simp only: eval_strings)
  then have trig: "\<exists>k \<in> set [''use kb'', ''from cached'', ''from pdf'', ''from overview''].
                 \<exists>pre post. lower ''Use KB for revenue'' = pre @ k @ post"
    unfolding isin_iff by simp
  have a: "need_fresh_search (fst (plan stub_env [] ''Nokia'' ''Use KB for revenue'' True)) = False"
    using plan_need_fresh_search_iff [of stub_env "[]" "''Nokia''" "''Use KB for revenue''" True]
      trig by simp
  have b: "need_fresh_search (fst (plan stub_env [] ''Nokia'' ''Use KB for revenue'' False)) = True"
    using plan_need_fresh_search_iff [of stub_env "[]" "''Nokia''" "''Use KB for revenue''" False]
    by simp
  have "\<not> (\<exists>k \<in> set [''use kb'', ''from cached'', ''from pdf'', ''from overview''].
                 \<exists>pre post. lower ''revenue'' = pre @ k @ post)"
    unfolding isin_iff [symmetric] by code_simp
  then have c: "need_fresh_search (fst (plan stub_env [] ''Nokia'' ''revenue'' True)) = True"
    using plan_need_fresh_search_iff [of stub_env "[]" "''Nokia''" "''revenue''" True]
    by simp
  from trig a b c show ?thesis by blast
qed

section \<open>The vector index\<close>

lemma embed_forced:
  "forced_failure client ts \<Longrightarrow>
     embed_texts np client ix ts = (random_matrix np (length ts), ix\<lparr>index_dim := Some 512\<rparr>)"
  by (auto simp: forced_failure_def embed_texts_def split: option.splits sum.splits)

lemma random_matrix_length: "length (random_matrix np n) = n"
  by (simp add: random_matrix_def)

lemma random_matrix_rows: "r \<in> set (random_matrix np n) \<Longrightarrow> length r = 512"
  by (auto simp: random_matrix_def)

lemma add_forced:
  "forced_failure c1 ts \<Longrightarrow> forced_failure c2 ts \<Longrightarrow> add np c1 ix ts ms = add np c2 ix ts ms"
  by (simp add: add_def embed_forced)

lemma search_forced:
  "forced_failure c1 [q] \<Longrightarrow> forced_failure c2 [q] \<Longrightarrow> search np c1 ix q k = search np c2 ix q k"
  by (simp add: search_def embed_forced split: option.splits)

text \<open>
  Claim C6. In the forced-failure mode of the embedding collaborator (no client, or a
  client whose call raises) \<open>add\<close> on a new index followed by \<open>search\<close> gives the same
  scores and the same metadata in the same order in any two runs, whichever way the
  collaborator fails in each: the rows stored and the embedding of the query are draws
  of the generator seeded with 42, of dimension 512.
\<close>

theorem fallback_deterministic:
  assumes "forced_failure a1 ts" and "forced_failure a2 ts"
    and "forced_failure s1 [q]" and "forced_failure s2 [q]"
  shows "fst (search np s1 (snd (add np a1 init ts ms)) q k)
           = fst (search np s2 (snd (add np a2 init ts ms)) q k)
     \<and> (ts \<noteq> [] \<longrightarrow>
          vectors (snd (add np a1 init ts ms)) = Some (random_matrix np (length ts))
          \<and> index_dim (snd (add np a1 init ts ms)) = Some 512
          \<and> (\<forall>r \<in> set (random_matrix np (length ts)). length r = 512)
          \<and> query_embedding np s1 (snd (add np a1 init ts ms)) q
               = map (random42 np) [0..<512])"
proof -
  have e: "fst (search np s1 (snd (add np a1 init ts ms)) q k)
           = fst (search np s2 (snd (add np a2 init ts ms)) q k)"
    using add_forced [OF assms(1,2)] search_forced [OF assms(3,4)] by simp
  have v: "vectors (snd (add np a1 init ts ms)) = Some (random_matrix np (length ts))
          \<and> index_dim (snd (add np a1 init ts ms)) = Some 512" if "ts \<noteq> []"
    using that by (simp add: add_def embed_forced [OF assms(1)] init_def)
  have q: "query_embedding np s1 ix q = map (random42 np) [0..<512]" for ix
    by (simp add: query_embedding_def embed_forced [OF assms(3)] random_matrix_def)
  from e v q random_matrix_rows show ?thesis by blast
qed

theorem fallback_deterministic_witness:
  "forced_failure None [''a'', ''b''] \<and> forced_failure api_down [''a'', ''b'']
   \<and> forced_failure api_down [''q''] \<and> forced_failure None [''q'']
   \<and> fst (search np0 api_down (snd (add np0 None init [''a'', ''b'']
              [[''source'' \<mapsto> PyStr ''http://a''], [''source'' \<mapsto> PyStr ''http://b'']])) ''q'' 5)
      = fst (search np0 None (snd (add np0 api_down init [''a'', ''b'']
              [[''source'' \<mapsto> PyStr ''http://a''], [''source'' \<mapsto> PyStr ''http://b'']])) ''q'' 5)"
proof -
  have h: "forced_failure None [''a'', ''b'']" "forced_failure api_down [''a'', ''b'']"
   "forced_failure api_down [''q'']" "forced_failure None [''q'']"
    by (simp_all add: forced_failure_def api_down_def)
  from fallback_deterministic [OF h, of np0 _ 5] h show ?thesis by blast
qed


text \<open>
  Two facts about \<open>search\<close> that do not depend on the arithmetic: the number of entries
  the slice keeps, and the empty result on an index without vectors or without texts.
\<close>

lemma slice_to_length:
  "length (slice_to k xs) =
     (if 0 \<le> k then min (nat k) (length xs) else length xs - nat (- k))"
  by (simp add: slice_to_def min.commute)

lemma search_empty:
  "vectors ix = None \<or> texts ix = [] \<Longrightarrow> search np cl ix q k = (Inr [], ix)"
  by (auto simp: search_def split: option.splits)

lemma embed_1536:
  "embed_texts np api_1536 ix [t] = ([replicate 1536 (1 / 40)], ix\<lparr>index_dim := Some 1536\<rparr>)"
  by (simp add: embed_texts_def api_1536_def)

lemma vstack_fallback_mismatch:
  assumes "a \<noteq> []" and "0 < n" and "\<forall>r \<in> set a. length r \<noteq> 512"
  shows "vstack a (random_matrix np n) = Inl ValueError"
proof -
  from assms(1) obtain r where r: "r \<in> set a" by (cases a) auto
  from assms(2) obtain s where s: "s \<in> set (random_matrix np n)"
    using random_matrix_length [of np n] by (cases "random_matrix np n") auto
  from r s assms(3) random_matrix_rows [OF s] have "\<not> (\<forall>r \<in> set a. \<forall>s \<in> set (random_matrix np n). length r = length s)"
    by metis
  then show ?thesis unfolding vstack_def by (simp only: if_False)
qed

lemma first_add:
  "add np0 api_1536 init [''a''] [[''source'' \<mapsto> PyStr ''http://a'']] = (Inr (), one_item)"
  by (simp add: add_def embed_1536 init_def one_item_def)

text \<open>
  Claim C9 says that every operation keeps the numbers of texts, metadata records and
  rows equal. After one \<open>add\<close> with a working embedding API (dimension 1536) a second
  \<open>add\<close> during an outage falls back to rows of dimension 512: \<open>np.vstack\<close> raises, after
  the texts and the metadata have been extended. The index then holds two texts, two
  metadata records and one row.
\<close>

theorem add_breaks_parallel_arrays:
  "add np0 api_1536 init [''a''] [[''source'' \<mapsto> PyStr ''http://a'']] = (Inr (), one_item)
   \<and> fst (add np0 api_down one_item [''b''] [[''source'' \<mapsto> PyStr ''http://b'']]) = Inl ValueError
   \<and> texts (snd (add np0 api_down one_item [''b''] [[''source'' \<mapsto> PyStr ''http://b'']]))
        = [''a'', ''b'']
   \<and> metadatas (snd (add np0 api_down one_item [''b''] [[''source'' \<mapsto> PyStr ''http://b'']]))
        = [[''source'' \<mapsto> PyStr ''http://a''], [''source'' \<mapsto> PyStr ''http://b'']]
   \<and> vectors (snd (add np0 api_down one_item [''b''] [[''source'' \<mapsto> PyStr ''http://b'']]))
        = Some [replicate 1536 (1 / 40)]"
proof -
  have f: "forced_failure api_down [''b'']" by (simp add: forced_failure_def api_down_def)
  have v: "vstack [replicate 1536 (1 / 40)] (random_matrix np0 (length [''b''])) = Inl ValueError"
    by (rule vstack_fallback_mismatch) simp_all
  have "add np0 api_down one_item [''b''] [[''source'' \<mapsto> PyStr ''http://b'']] =
      (Inl ValueError, one_item\<lparr>index_dim := Some 512, texts := [''a'', ''b''],
         metadatas := [[''source'' \<mapsto> PyStr ''http://a''], [''source'' \<mapsto> PyStr ''http://b'']]\<rparr>)"
    unfolding add_def embed_forced [OF f] using v by (simp add: one_item_def)
  with first_add show ?thesis by (simp add: one_item_def)
qed


lemma add_empty: "add np cl ix [] ms = (Inr (), ix)"
  by (simp add: add_def)

lemma embed_keeps:
  "texts (snd (embed_texts np cl ix ts)) = texts ix"
  "metadatas (snd (embed_texts np cl ix ts)) = metadatas ix"
  "vectors (snd (embed_texts np cl ix ts)) = vectors ix"
  by (auto simp: embed_texts_def split: option.splits sum.splits list.splits)

lemma search_keeps:
  "texts (snd (search np cl ix q k)) = texts ix"
  "metadatas (snd (search np cl ix q k)) = metadatas ix"
  "vectors (snd (search np cl ix q k)) = vectors ix"
  using embed_keeps [of np cl ix "[q]"]
  by (auto simp: search_def Let_def split: option.splits sum.splits list.splits prod.splits)

lemma search_keeps_parallel: "parallel_arrays ix \<Longrightarrow> parallel_arrays (snd (search np cl ix q k))"
  unfolding parallel_arrays_def search_keeps .

lemma add_append_only:
  "prefix (texts ix) (texts (snd (add np cl ix ts ms)))"
  "prefix (metadatas ix) (metadatas (snd (add np cl ix ts ms)))"
  "vectors ix = Some v \<Longrightarrow> \<exists>v'. vectors (snd (add np cl ix ts ms)) = Some v' \<and> prefix v v'"
  using embed_keeps [of np cl ix ts]
  by (auto simp: add_def vstack_def Let_def split: option.splits sum.splits prod.splits if_splits)

lemma add_keeps_parallel:
  assumes "parallel_arrays ix" and "length ms = length ts"
    and "fst (add np cl ix ts ms) = Inr ()"
    and "length (fst (embed_texts np cl ix ts)) = length ts"
  shows "parallel_arrays (snd (add np cl ix ts ms))"
  using assms embed_keeps [of np cl ix ts]
  by (auto simp: add_def vstack_def parallel_arrays_def Let_def
           split: option.splits sum.splits prod.splits if_splits)

end
